theory Spec2Isabelle
  imports Main
begin

section \<open>VectorBase: the abstract vector of systems/framework/vector_base.h\<close>

text \<open>
  The header declares the abstract class \<open>VectorBase<T>\<close>: two pure virtual primitives
  (\<open>size\<close>, \<open>GetAtIndex\<close>) and a family of default operations written in terms of them.
  The operations mutate vectors in place and take other vectors by reference, so the
  same object may be the target and an operand of one call. The model therefore keeps
  every vector in a store indexed by an address, and every operation is a function
  from the store to an outcome and the store after the call.
\<close>

subsection \<open>Outcomes\<close>

text \<open>
  Modelled from the spec: the macro \<open>DRAKE_THROW_UNLESS\<close> (drake/common/drake_throw.h)
  is not among the sources. Following the error design of the spec (every failed check
  is raised at once and is a distinguishable condition), a failed
  \<open>DRAKE_THROW_UNLESS(c)\<close> is the exception \<open>assertion_error\<close> holding the text of the
  condition \<open>c\<close> as written in the source.

  \<^item> \<open>runtime_error\<close>: the \<open>std::runtime_error\<close> that \<open>GetAtIndex\<close> documents for an index
    that is \<open>>= size()\<close>;
  \<^item> \<open>out_of_range\<close>: \<open>std::out_of_range\<close> with its message;
  \<^item> \<open>undefined_behavior\<close>: not an exception. It marks a step that C++ leaves undefined
    (dereferencing a null pointer, an Eigen coefficient outside the vector), so that
    such a step is a visible outcome of the model and never a silent value.
\<close>

datatype error =
    runtime_error
  | assertion_error string
  | out_of_range string
  | undefined_behavior

text \<open>
  A computation over a state \<open>'s\<close> that returns an \<open>'r\<close> or stops with an error. The
  state after the computation is returned in both cases, so that what an operation
  has already written when it fails stays observable.
\<close>

type_synonym ('s, 'r) exn = "'s \<Rightarrow> (error + 'r) \<times> 's"

definition returnM :: "'r \<Rightarrow> ('s, 'r) exn" where
  "returnM x s = (Inr x, s)"

definition throwM :: "error \<Rightarrow> ('s, 'r) exn" where
  "throwM e s = (Inl e, s)"

definition bindM :: "('s, 'q) exn \<Rightarrow> ('q \<Rightarrow> ('s, 'r) exn) \<Rightarrow> ('s, 'r) exn" where
  "bindM m f s = (case m s of (Inl e, s') \<Rightarrow> (Inl e, s') | (Inr x, s') \<Rightarrow> f x s')"

definition DRAKE_THROW_UNLESS :: "string \<Rightarrow> bool \<Rightarrow> ('s, unit) exn" where
  "DRAKE_THROW_UNLESS condition_text condition =
     (if condition then returnM () else throwM (assertion_error condition_text))"

subsection \<open>The store\<close>

text \<open>
  An address names one object. \<open>vectors\<close> holds the \<open>VectorBase<T>\<close> objects, \<open>eigen\<close> the
  dense \<open>VectorX<T>\<close> objects reached through an \<open>EigenPtr\<close> or an \<open>Eigen::Ref\<close>, and
  \<open>eigen_d\<close> the \<open>Eigen::VectorXd\<close> objects of \<open>GetElementBounds\<close> (whose scalar is
  \<open>double\<close> whatever \<open>T\<close> is; the code only resizes them, so their scalar is left as the
  type parameter \<open>'d\<close>). \<open>accesses\<close> is a record of the element accesses made through
  \<open>GetAtIndex\<close> and \<open>SetAtIndex\<close>, in the order in which they happen; no operation reads
  it. A pointer is \<open>None\<close> for \<open>nullptr\<close>.
\<close>

type_synonym addr = nat

datatype event = Read addr nat | Write addr nat

record ('a, 'd) world =
  vectors :: "addr \<Rightarrow> 'a list"
  eigen :: "addr \<Rightarrow> 'a list"
  eigen_d :: "addr \<Rightarrow> 'd list"
  accesses :: "event list"

subsection \<open>The pure virtual primitives\<close>

text \<open>
  Modelled from the spec: \<open>size\<close> and both \<open>GetAtIndex\<close> overloads are pure virtual and
  no concrete subclass is among the sources. The model is the spec's data model: a
  vector is a finite sequence of scalars, \<open>size\<close> is its length, and element access
  fails when the index is \<open>>= size()\<close> (the \<open>@throws\<close> of the header). Indices are
  natural numbers: every loop of the header counts an \<open>int\<close> upwards from 0 and stops
  below a \<open>size()\<close>, which is itself an \<open>int\<close>, so no index is negative or wraps.
\<close>

definition size_vb :: "addr \<Rightarrow> ('a, 'd) world \<Rightarrow> nat" where
  "size_vb this w = length (vectors w this)"

definition GetAtIndex :: "addr \<Rightarrow> nat \<Rightarrow> (('a, 'd) world, 'a) exn" where
  "GetAtIndex this index w =
     (if index < size_vb this w
      then (Inr (vectors w this ! index), w\<lparr>accesses := accesses w @ [Read this index]\<rparr>)
      else (Inl runtime_error, w))"

text \<open>\<open>SetAtIndex(index, value)\<close> is \<open>GetAtIndex(index) = value\<close>: the checked access, then the store.\<close>

definition SetAtIndex :: "addr \<Rightarrow> nat \<Rightarrow> 'a \<Rightarrow> (('a, 'd) world, unit) exn" where
  "SetAtIndex this index val w =
     (if index < size_vb this w
      then (Inr (), w\<lparr>vectors := (vectors w)(this := (vectors w this)[index := val]),
                       accesses := accesses w @ [Write this index]\<rparr>)
      else (Inl runtime_error, w))"

subsection \<open>Eigen vectors\<close>

text \<open>
  Eigen's coefficient access is unchecked: outside the vector it is undefined, which
  the model makes an outcome.
\<close>

definition rows :: "addr \<Rightarrow> ('a, 'd) world \<Rightarrow> nat" where
  "rows p w = length (eigen w p)"

definition coeff_read :: "'a list \<Rightarrow> nat \<Rightarrow> ('s, 'a) exn" where
  "coeff_read vec i = (if i < length vec then returnM (vec ! i) else throwM undefined_behavior)"

definition coeff_write :: "'a list \<Rightarrow> nat \<Rightarrow> 'a \<Rightarrow> ('s, 'a list) exn" where
  "coeff_write vec i x =
     (if i < length vec then returnM (vec[i := x]) else throwM undefined_behavior)"

definition eigen_read :: "addr \<Rightarrow> nat \<Rightarrow> (('a, 'd) world, 'a) exn" where
  "eigen_read p i w = coeff_read (eigen w p) i w"

definition eigen_write :: "addr \<Rightarrow> nat \<Rightarrow> 'a \<Rightarrow> (('a, 'd) world, unit) exn" where
  "eigen_write p i x w =
     bindM (coeff_write (eigen w p) i x)
       (\<lambda>vec w'. returnM () (w'\<lparr>eigen := (eigen w')(p := vec)\<rparr>)) w"

text \<open>\<open>p->m\<close> on a pointer \<open>p\<close>: undefined on \<open>nullptr\<close>.\<close>

definition deref :: "addr option \<Rightarrow> ('s, addr) exn" where
  "deref p = (case p of None \<Rightarrow> throwM undefined_behavior | Some a \<Rightarrow> returnM a)"

text \<open>\<open>v->resize(0)\<close> on an \<open>Eigen::VectorXd\<close>: the vector has no coefficient afterwards.\<close>

definition resize_0 :: "addr \<Rightarrow> (('a, 'd) world, unit) exn" where
  "resize_0 p w = returnM () (w\<lparr>eigen_d := (eigen_d w)(p := [])\<rparr>)"

subsection \<open>Scalars passed by reference\<close>

text \<open>
  A parameter of type \<open>const T&\<close> is a reference: the callee reads the scalar it refers
  to each time it uses the parameter. The scalar may be an object of its own, which
  no vector of the store holds (a local variable, a temporary), or a coefficient of a
  dense vector, or an element of a vector; in the last two cases a write to that
  vector changes what the reference reads. Reading through a reference is a plain
  read: it is not an access through \<open>GetAtIndex\<close>, and it is undefined when the
  reference does not refer to a scalar of the store.
\<close>

datatype 'a scalar_ref = Temporary 'a | Coefficient addr nat | Element addr nat

fun read_ref :: "'a scalar_ref \<Rightarrow> (('a, 'd) world, 'a) exn" where
  "read_ref (Temporary v) w = returnM v w"
| "read_ref (Coefficient p k) w = coeff_read (eigen w p) k w"
| "read_ref (Element a k) w = coeff_read (vectors w a) k w"

text \<open>Recursion through \<open>bindM\<close> continues only from a returned value and its state.\<close>

lemma bindM_cong [fundef_cong]:
  "\<lbrakk>m = m'; s = s'; \<And>x t. m' s' = (Inr x, t) \<Longrightarrow> f x t = f' x t\<rbrakk>
    \<Longrightarrow> bindM m f s = bindM m' f' s'"
  by (auto simp: bindM_def split: prod.splits sum.splits)

lemma size_vb_GetAtIndex: "GetAtIndex a i w = (r, w') \<Longrightarrow> size_vb b w' = size_vb b w"
  by (auto simp: GetAtIndex_def size_vb_def split: if_splits)

lemma size_vb_SetAtIndex: "SetAtIndex a i v w = (r, w') \<Longrightarrow> size_vb b w' = size_vb b w"
  by (auto simp: SetAtIndex_def size_vb_def split: if_splits)

lemma size_vb_eigen_write: "eigen_write p i v w = (r, w') \<Longrightarrow> size_vb b w' = size_vb b w"
  by (auto simp: eigen_write_def coeff_write_def bindM_def returnM_def throwM_def size_vb_def
      split: if_splits)

lemma size_vb_eigen_read: "eigen_read p i w = (r, w') \<Longrightarrow> size_vb b w' = size_vb b w"
  by (auto simp: eigen_read_def coeff_read_def returnM_def throwM_def split: if_splits)

lemma size_vb_read_ref: "read_ref scale w = (r, w') \<Longrightarrow> size_vb b w' = size_vb b w"
  by (cases scale) (auto simp: coeff_read_def returnM_def throwM_def split: if_splits)

subsection \<open>SetFrom, SetFromVector, SetZero\<close>

text \<open>
  \<^verbatim>\<open>for (int i = 0; i < value.size(); ++i) SetAtIndex(i, value.GetAtIndex((i)));\<close>
  The bound \<open>value.size()\<close> is read again before every iteration.
\<close>

function SetFrom_loop :: "addr \<Rightarrow> addr \<Rightarrow> nat \<Rightarrow> (('a, 'd) world, unit) exn" where
  "SetFrom_loop this val i w =
     (if i < size_vb val w
      then bindM (GetAtIndex val i) (\<lambda>x.
           bindM (SetAtIndex this i x) (\<lambda>_.
           SetFrom_loop this val (i + 1))) w
      else returnM () w)"
  by pat_completeness auto
termination
proof (relation "measure (\<lambda>(this, val, i, w). size_vb val w - i)", goal_cases)
  case 1
  show ?case by simp
next
  case (2 this val i w x t u ta)
  then show ?case
    using size_vb_GetAtIndex [of val i w "Inr x" t val]
      size_vb_SetAtIndex [of this i x t "Inr u" ta val]
    by simp
qed

definition SetFrom :: "addr \<Rightarrow> addr \<Rightarrow> (('a, 'd) world, unit) exn" where
  "SetFrom this val w =
     bindM (DRAKE_THROW_UNLESS ''value.size() == size()'' (size_vb val w = size_vb this w))
       (\<lambda>_. SetFrom_loop this val 0) w"

text \<open>
  \<^verbatim>\<open>for (int i = 0; i < value.rows(); ++i) SetAtIndex(i, value[i]);\<close>
\<close>

function SetFromVector_loop :: "addr \<Rightarrow> addr \<Rightarrow> nat \<Rightarrow> (('a, 'd) world, unit) exn" where
  "SetFromVector_loop this val i w =
     (if i < rows val w
      then bindM (eigen_read val i) (\<lambda>x.
           bindM (SetAtIndex this i x) (\<lambda>_.
           SetFromVector_loop this val (i + 1))) w
      else returnM () w)"
  by pat_completeness auto
termination
proof (relation "measure (\<lambda>(this, val, i, w). rows val w - i)", goal_cases)
  case 1
  show ?case by simp
next
  case (2 this val i w x t u ta)
  then show ?case
    by (auto simp: eigen_read_def coeff_read_def returnM_def throwM_def SetAtIndex_def rows_def
        split: if_splits)
qed

definition SetFromVector :: "addr \<Rightarrow> addr \<Rightarrow> (('a, 'd) world, unit) exn" where
  "SetFromVector this val w =
     bindM (DRAKE_THROW_UNLESS ''value.rows() == size()'' (rows val w = size_vb this w))
       (\<lambda>_. SetFromVector_loop this val 0) w"

text \<open>
  \<^verbatim>\<open>const int sz = size(); for (int i = 0; i < sz; ++i) SetAtIndex(i, T(0));\<close>
  Here the bound is read once.
\<close>

function SetZero_loop :: "addr \<Rightarrow> nat \<Rightarrow> nat \<Rightarrow> (('a::zero, 'd) world, unit) exn" where
  "SetZero_loop this sz i =
     (if i < sz
      then bindM (SetAtIndex this i 0) (\<lambda>_. SetZero_loop this sz (i + 1))
      else returnM ())"
  by pat_completeness auto
termination
  by (relation "measure (\<lambda>(this, sz, i). sz - i)") auto

definition SetZero :: "addr \<Rightarrow> (('a::zero, 'd) world, unit) exn" where
  "SetZero this w = SetZero_loop this (size_vb this w) 0 w"

subsection \<open>CopyToVector, CopyToPreSizedVector, ScaleAndAddToVector\<close>

text \<open>
  \<^verbatim>\<open>for (int i = 0; i < size(); ++i) vec[i] = GetAtIndex(i);\<close> on the local \<open>vec\<close>.
\<close>

function CopyToVector_loop :: "addr \<Rightarrow> nat \<Rightarrow> 'a list \<Rightarrow> (('a, 'd) world, 'a list) exn" where
  "CopyToVector_loop this i vec w =
     (if i < size_vb this w
      then bindM (GetAtIndex this i) (\<lambda>x.
           bindM (coeff_write vec i x) (\<lambda>vec'.
           CopyToVector_loop this (i + 1) vec')) w
      else returnM vec w)"
  by pat_completeness auto
termination
proof (relation "measure (\<lambda>(this, i, vec, w). size_vb this w - i)", goal_cases)
  case 1
  show ?case by simp
next
  case (2 this i vec w x t xa ta)
  then show ?case
    using size_vb_GetAtIndex [of this i w "Inr x" t this]
    by (auto simp: coeff_write_def returnM_def throwM_def split: if_splits)
qed

text \<open>
  \<open>VectorX<T> vec(size())\<close> allocates \<open>size()\<close> coefficients and leaves them
  uninitialised. The model starts the local vector at zeros; the loop overwrites
  every coefficient, and \<open>CopyToVector_loop_all\<close> below holds for any initial
  coefficients.
\<close>

definition CopyToVector :: "addr \<Rightarrow> (('a::zero, 'd) world, 'a list) exn" where
  "CopyToVector this w = CopyToVector_loop this 0 (replicate (size_vb this w) 0) w"

function CopyToPreSizedVector_loop :: "addr \<Rightarrow> addr \<Rightarrow> nat \<Rightarrow> (('a, 'd) world, unit) exn" where
  "CopyToPreSizedVector_loop this vec i w =
     (if i < size_vb this w
      then bindM (GetAtIndex this i) (\<lambda>x.
           bindM (eigen_write vec i x) (\<lambda>_.
           CopyToPreSizedVector_loop this vec (i + 1))) w
      else returnM () w)"
  by pat_completeness auto
termination
proof (relation "measure (\<lambda>(this, vec, i, w). size_vb this w - i)", goal_cases)
  case 1
  show ?case by simp
next
  case (2 this vec i w x t u ta)
  then show ?case
    using size_vb_GetAtIndex [of this i w "Inr x" t this]
      size_vb_eigen_write [of vec i x t "Inr u" ta this]
    by simp
qed

definition CopyToPreSizedVector :: "addr \<Rightarrow> addr option \<Rightarrow> (('a, 'd) world, unit) exn" where
  "CopyToPreSizedVector this vec =
     bindM (DRAKE_THROW_UNLESS ''vec != nullptr'' (vec \<noteq> None)) (\<lambda>_.
     bindM (\<lambda>w. DRAKE_THROW_UNLESS ''vec->rows() == size()''
                  (rows (the vec) w = size_vb this w) w) (\<lambda>_.
     CopyToPreSizedVector_loop this (the vec) 0))"

text \<open>
  \<^verbatim>\<open>for (int i = 0; i < size(); ++i) (*vec)[i] += scale * GetAtIndex(i);\<close>
  The parameter \<open>scale\<close> is a \<open>const T&\<close>: it is read in every iteration. The right
  operand of \<open>+=\<close> is evaluated before the coefficient is read and written.
\<close>

function ScaleAndAddToVector_loop ::
  "addr \<Rightarrow> 'a::{plus,times} scalar_ref \<Rightarrow> addr \<Rightarrow> nat \<Rightarrow> (('a, 'd) world, unit) exn" where
  "ScaleAndAddToVector_loop this scale vec i w =
     (if i < size_vb this w
      then bindM (read_ref scale) (\<lambda>s.
           bindM (GetAtIndex this i) (\<lambda>x.
           bindM (eigen_read vec i) (\<lambda>y.
           bindM (eigen_write vec i (y + s * x)) (\<lambda>_.
           ScaleAndAddToVector_loop this scale vec (i + 1))))) w
      else returnM () w)"
  by pat_completeness auto
termination
proof (relation "measure (\<lambda>(this, scale, vec, i, w). size_vb this w - i)", goal_cases)
  case 1
  show ?case by simp
next
  case (2 this scale vec i w s t0 x t y ta u tb)
  then show ?case
    using size_vb_read_ref [of scale w "Inr s" t0 this]
      size_vb_GetAtIndex [of this i t0 "Inr x" t this]
      size_vb_eigen_read [of vec i t "Inr y" ta this]
      size_vb_eigen_write [of vec i "y + s * x" ta "Inr u" tb this]
    by simp
qed

definition ScaleAndAddToVector ::
  "addr \<Rightarrow> 'a::{plus,times} scalar_ref \<Rightarrow> addr option \<Rightarrow> (('a, 'd) world, unit) exn" where
  "ScaleAndAddToVector this scale vec =
     bindM (DRAKE_THROW_UNLESS ''vec != nullptr'' (vec \<noteq> None)) (\<lambda>_ w.
       if rows (the vec) w \<noteq> size_vb this w
       then throwM (out_of_range ''Addends must be the same size.'') w
       else ScaleAndAddToVector_loop this scale (the vec) 0 w)"

subsection \<open>PlusEqScaled and the default DoPlusEqScaled\<close>

text \<open>
  \<^verbatim>\<open>for (const auto& operand : rhs_scale) value += operand.second.GetAtIndex(i) * operand.first;\<close>
  An operand is a pair of a scale and a reference to a vector.
\<close>

fun DoPlusEqScaled_operands ::
  "nat \<Rightarrow> ('a::{plus,times} \<times> addr) list \<Rightarrow> 'a \<Rightarrow> (('a, 'd) world, 'a) exn" where
  "DoPlusEqScaled_operands i [] val = returnM val"
| "DoPlusEqScaled_operands i (operand # rest) val =
     bindM (GetAtIndex (snd operand) i) (\<lambda>x.
     DoPlusEqScaled_operands i rest (val + x * fst operand))"

text \<open>
  \<^verbatim>\<open>for (int i = 0; i < sz; ++i) { T value(0); ...; SetAtIndex(i, GetAtIndex(i) + value); }\<close>
\<close>

function DoPlusEqScaled_loop ::
  "addr \<Rightarrow> ('a::{zero,plus,times} \<times> addr) list \<Rightarrow> nat \<Rightarrow> nat \<Rightarrow> (('a, 'd) world, unit) exn" where
  "DoPlusEqScaled_loop this rhs_scale sz i =
     (if i < sz
      then bindM (DoPlusEqScaled_operands i rhs_scale 0) (\<lambda>val.
           bindM (GetAtIndex this i) (\<lambda>x.
           bindM (SetAtIndex this i (x + val)) (\<lambda>_.
           DoPlusEqScaled_loop this rhs_scale sz (i + 1))))
      else returnM ())"
  by pat_completeness auto
termination
  by (relation "measure (\<lambda>(this, rhs_scale, sz, i). sz - i)") auto

definition DoPlusEqScaled ::
  "addr \<Rightarrow> ('a::{zero,plus,times} \<times> addr) list \<Rightarrow> (('a, 'd) world, unit) exn" where
  "DoPlusEqScaled this rhs_scale w = DoPlusEqScaled_loop this rhs_scale (size_vb this w) 0 w"

text \<open>
  \<^verbatim>\<open>for (const auto& operand : rhs_scale) if (operand.second.size() != size()) throw std::out_of_range(...);\<close>
\<close>

fun PlusEqScaled_check :: "addr \<Rightarrow> ('a \<times> addr) list \<Rightarrow> (('a, 'd) world, unit) exn" where
  "PlusEqScaled_check this [] w = returnM () w"
| "PlusEqScaled_check this (operand # rest) w =
     (if size_vb (snd operand) w \<noteq> size_vb this w
      then throwM (out_of_range ''Addends must be the same size.'') w
      else PlusEqScaled_check this rest w)"

text \<open>The list overload; it returns \<open>*this\<close>.\<close>

definition PlusEqScaled ::
  "addr \<Rightarrow> ('a::{zero,plus,times} \<times> addr) list \<Rightarrow> (('a, 'd) world, addr) exn" where
  "PlusEqScaled this rhs_scale =
     bindM (PlusEqScaled_check this rhs_scale) (\<lambda>_.
     bindM (DoPlusEqScaled this rhs_scale) (\<lambda>_.
     returnM this))"

text \<open>
  The overload of one scale and one vector: \<open>return PlusEqScaled({{scale, rhs}})\<close>. The
  pair of the list holds a \<open>T\<close>, not a reference: the scale is copied when the call is
  made, so it is a value here.
\<close>

definition PlusEqScaled1 ::
  "addr \<Rightarrow> 'a::{zero,plus,times} \<Rightarrow> addr \<Rightarrow> (('a, 'd) world, addr) exn" where
  "PlusEqScaled1 this scale rhs = PlusEqScaled this [(scale, rhs)]"

definition operator_plus_eq :: "addr \<Rightarrow> addr \<Rightarrow> (('a::{zero,one,plus,times}, 'd) world, addr) exn" where
  "operator_plus_eq this rhs = PlusEqScaled1 this 1 rhs"

definition operator_minus_eq ::
  "addr \<Rightarrow> addr \<Rightarrow> (('a::{zero,one,plus,times,uminus}, 'd) world, addr) exn" where
  "operator_minus_eq this rhs = PlusEqScaled1 this (- 1) rhs"

text \<open>\<open>A.PlusEqScaled(s1, B1); A.PlusEqScaled(s2, B2);\<close>\<close>

definition PlusEqScaled_sequential ::
  "addr \<Rightarrow> 'a::{zero,plus,times} \<Rightarrow> addr \<Rightarrow> 'a \<Rightarrow> addr \<Rightarrow> (('a, 'd) world, addr) exn" where
  "PlusEqScaled_sequential this s1 b1 s2 b2 =
     bindM (PlusEqScaled1 this s1 b1) (\<lambda>_. PlusEqScaled1 this s2 b2)"

subsection \<open>GetElementBounds\<close>

text \<open>\<^verbatim>\<open>lower->resize(0); upper->resize(0);\<close>\<close>

definition GetElementBounds ::
  "addr \<Rightarrow> addr option \<Rightarrow> addr option \<Rightarrow> (('a, 'd) world, unit) exn" where
  "GetElementBounds this lower upper =
     bindM (deref lower) (\<lambda>l.
     bindM (resize_0 l) (\<lambda>_.
     bindM (deref upper) (\<lambda>u.
     resize_0 u)))"

subsection \<open>Streaming\<close>

text \<open>
  \<open>operator<<(std::ostream&, const VectorBase<T>&)\<close>. The stream is the text written to
  it so far. How one scalar is written is \<open>T\<close>'s own \<open>operator<<\<close>, which is not part
  of the header: it is the parameter \<open>put\<close>.
  \<^verbatim>\<open>for (int i = 0; i < vec.size(); ++i) { if (i > 0) os << ", "; os << vec.GetAtIndex(i); }\<close>
\<close>

function operator_shl_loop ::
  "('a \<Rightarrow> string) \<Rightarrow> addr \<Rightarrow> nat \<Rightarrow> string \<Rightarrow> (('a, 'd) world, string) exn" where
  "operator_shl_loop put vec i os w =
     (if i < size_vb vec w
      then bindM (returnM (if i > 0 then os @ '', '' else os)) (\<lambda>os1.
           bindM (GetAtIndex vec i) (\<lambda>x.
           operator_shl_loop put vec (i + 1) (os1 @ put x))) w
      else returnM os w)"
  by pat_completeness auto
termination
proof (relation "measure (\<lambda>(put, vec, i, os, w). size_vb vec w - i)", goal_cases)
  case 1
  show ?case by simp
next
  case (2 put vec i os w os1 t x ta)
  then show ?case
    using size_vb_GetAtIndex [of vec i t "Inr x" ta vec]
    by (auto simp: returnM_def)
qed

definition operator_shl :: "('a \<Rightarrow> string) \<Rightarrow> string \<Rightarrow> addr \<Rightarrow> (('a, 'd) world, string) exn" where
  "operator_shl put os vec =
     bindM (returnM (os @ ''['')) (\<lambda>os1.
     bindM (operator_shl_loop put vec 0 os1) (\<lambda>os2.
     returnM (os2 @ '']'')))"

subsection \<open>The properties the specification states, in its own words\<close>

text \<open>
  The accumulator of the specification at index \<open>i\<close>: the sum over the operands \<open>k\<close> of
  \<open>scale_k * vector_k.get(i)\<close>, read in the store \<open>w\<close>. The products are added one after
  the other, in the order of the list, to the scalar zero; no law of arithmetic is
  built into the definition (\<open>accumulator_spec_sum_list\<close> below: where addition is
  associative and commutative it is the sum in any order).
\<close>

definition accumulator_spec ::
  "('a::{zero,plus,times}, 'd) world \<Rightarrow> ('a \<times> addr) list \<Rightarrow> nat \<Rightarrow> 'a" where
  "accumulator_spec w rhs_scale i =
     foldl (\<lambda>acc operand. acc + fst operand * vectors w (snd operand) ! i) 0 rhs_scale"

text \<open>
  The element accesses of the specification's traversal at one index \<open>i\<close>: every operand
  is read at \<open>i\<close>, in the order of the list, then \<open>this[i]\<close> is read once and written once.
  The index-major traversal is the concatenation of these blocks for \<open>i = 0, ..., N - 1\<close>.
\<close>

definition index_accesses_spec :: "addr \<Rightarrow> ('a \<times> addr) list \<Rightarrow> nat \<Rightarrow> event list" where
  "index_accesses_spec this rhs_scale i =
     map (\<lambda>operand. Read (snd operand) i) rhs_scale @ [Read this i, Write this i]"

text \<open>
  The listing of the specification: the elements in index order, written one after
  the other with a comma and a space between two of them, inside square brackets.
\<close>

fun comma_separated_spec :: "string list \<Rightarrow> string" where
  "comma_separated_spec [] = []"
| "comma_separated_spec [x] = x"
| "comma_separated_spec (x # y # ys) = x @ '', '' @ comma_separated_spec (y # ys)"

definition bracketed_listing_spec :: "('a \<Rightarrow> string) \<Rightarrow> 'a list \<Rightarrow> string" where
  "bracketed_listing_spec put xs = ''['' @ comma_separated_spec (map put xs) @ '']''"

subsection \<open>Example stores\<close>

definition store_of :: "'a list list \<Rightarrow> addr \<Rightarrow> 'a list" where
  "store_of xss a = (if a < length xss then xss ! a else [])"

definition fresh_world :: "(addr \<Rightarrow> 'a list) \<Rightarrow> (addr \<Rightarrow> 'a list) \<Rightarrow> ('a, 'd) world" where
  "fresh_world vs es = \<lparr>vectors = vs, eigen = es, eigen_d = (\<lambda>_. []), accesses = []\<rparr>"

text \<open>
  Vectors 0, 1 and 2 have three elements, vector 3 has one, every other vector is
  empty. The dense vector 0 has three coefficients, the dense vector 1 has one.
\<close>

definition example_world :: "(int, unit) world" where
  "example_world =
     fresh_world (store_of [[1, 2, 3], [10, 20, 30], [100, 200, 300], [7]])
       (store_of [[5, 6, 7], [0]])"

text \<open>How the examples write an integer to a stream (the digits 1 to 3 suffice).\<close>

definition put_example :: "int \<Rightarrow> string" where
  "put_example n = (if n = 1 then ''1'' else if n = 2 then ''2'' else if n = 3 then ''3'' else ''?'')"

section \<open>Verification\<close>

declare SetFrom_loop.simps [simp del] SetFromVector_loop.simps [simp del]
  SetZero_loop.simps [simp del] CopyToVector_loop.simps [simp del]
  CopyToPreSizedVector_loop.simps [simp del] ScaleAndAddToVector_loop.simps [simp del]
  DoPlusEqScaled_loop.simps [simp del] operator_shl_loop.simps [simp del]

lemmas example_defs = example_world_def fresh_world_def store_of_def size_vb_def rows_def

subsection \<open>Steps of a computation\<close>

lemma bindM_returnM [simp]: "bindM (returnM x) f s = f x s"
  by (simp add: bindM_def returnM_def)

lemma bindM_throwM [simp]: "bindM (throwM e) f s = (Inl e, s)"
  by (simp add: bindM_def throwM_def)

lemma GetAtIndex_ok:
  "i < length (vectors w a) \<Longrightarrow>
   GetAtIndex a i w = (Inr (vectors w a ! i), w\<lparr>accesses := accesses w @ [Read a i]\<rparr>)"
  by (simp add: GetAtIndex_def size_vb_def)

lemma SetAtIndex_ok:
  "i < length (vectors w a) \<Longrightarrow>
   SetAtIndex a i v w =
     (Inr (), w\<lparr>vectors := (vectors w)(a := (vectors w a)[i := v]),
                 accesses := accesses w @ [Write a i]\<rparr>)"
  by (simp add: SetAtIndex_def size_vb_def)

subsection \<open>PlusEqScaled: validation\<close>

lemma PlusEqScaled_check_fails:
  "\<exists>operand \<in> set rhs_scale. size_vb (snd operand) w \<noteq> size_vb this w \<Longrightarrow>
   PlusEqScaled_check this rhs_scale w =
     (Inl (out_of_range ''Addends must be the same size.''), w)"
  by (induction rhs_scale) (auto simp: throwM_def)

lemma PlusEqScaled_check_passes:
  "\<forall>operand \<in> set rhs_scale. size_vb (snd operand) w = size_vb this w \<Longrightarrow>
   PlusEqScaled_check this rhs_scale w = (Inr (), w)"
  by (induction rhs_scale) (auto simp: returnM_def)

text \<open>
  Claim C1. When any operand of the list, wherever it stands in it, has a size other
  than \<open>size()\<close>, the list overload of \<open>PlusEqScaled\<close> throws \<open>std::out_of_range\<close> and the
  store after the call is the store before it: no element of any vector has been
  written (or even read).
\<close>

theorem PlusEqScaled_mismatch_leaves_store:
  assumes "(scale, rhs) \<in> set rhs_scale" and "size_vb rhs w \<noteq> size_vb this w"
  shows "PlusEqScaled this rhs_scale w =
    (Inl (out_of_range ''Addends must be the same size.''), w)"
proof -
  have "PlusEqScaled_check this rhs_scale w =
      (Inl (out_of_range ''Addends must be the same size.''), w)"
    using assms by (intro PlusEqScaled_check_fails) force
  then show ?thesis
    by (simp add: PlusEqScaled_def bindM_def)
qed

text \<open>The last of three operands has the wrong size; the first two are valid.\<close>

theorem PlusEqScaled_mismatch_leaves_store_witness:
  "(5, 3) \<in> set [(2 :: int, 1 :: addr), (3, 2), (5, 3)] \<and>
   size_vb 3 example_world \<noteq> size_vb 0 example_world \<and>
   PlusEqScaled 0 [(2, 1), (3, 2), (5, 3)] example_world =
     (Inl (out_of_range ''Addends must be the same size.''), example_world)"
proof -
  have m: "(5, 3) \<in> set [(2 :: int, 1 :: addr), (3, 2), (5, 3)]"
    by simp
  have h: "size_vb 3 example_world \<noteq> size_vb 0 example_world"
    by (simp add: example_defs)
  from m h PlusEqScaled_mismatch_leaves_store [OF m h] show ?thesis
    by blast
qed

subsection \<open>The default DoPlusEqScaled\<close>

lemma foldl_plus_sum_list:
  fixes a :: "'b::comm_monoid_add"
  shows "foldl (\<lambda>acc x. acc + f x) a xs = a + sum_list (map f xs)"
  by (induction xs arbitrary: a) (simp_all add: add.assoc)

lemma accumulator_spec_sum_list:
  fixes w :: "('a::comm_semiring_0, 'd) world"
  shows "accumulator_spec w ops i = (\<Sum>operand\<leftarrow>ops. fst operand * vectors w (snd operand) ! i)"
  by (simp add: accumulator_spec_def foldl_plus_sum_list)

text \<open>
  The inner loop adds \<open>vector_k.get(i) * scale_k\<close>; the specification writes the product
  as \<open>scale_k * vector_k.get(i)\<close>. That the two agree is the one law of arithmetic the
  results below assume of the scalars.
\<close>

lemma DoPlusEqScaled_operands_run:
  fixes w :: "('a::{plus,times}, 'd) world"
  assumes comm: "\<And>x y :: 'a. x * y = y * x"
    and "\<forall>operand \<in> set ops. i < length (vectors w (snd operand))"
  shows "DoPlusEqScaled_operands i ops v w =
     (Inr (foldl (\<lambda>acc operand. acc + fst operand * vectors w (snd operand) ! i) v ops),
      w\<lparr>accesses := accesses w @ map (\<lambda>operand. Read (snd operand) i) ops\<rparr>)"
  using assms(2)
proof (induction ops arbitrary: v w)
  case Nil
  then show ?case by (simp add: returnM_def)
next
  case (Cons operand rest)
  let ?w1 = "w\<lparr>accesses := accesses w @ [Read (snd operand) i]\<rparr>"
  have g: "GetAtIndex (snd operand) i w = (Inr (vectors w (snd operand) ! i), ?w1)"
    using Cons.prems by (simp add: GetAtIndex_ok)
  have "\<forall>operand \<in> set rest. i < length (vectors ?w1 (snd operand))"
    using Cons.prems by simp
  from Cons.IH [OF this] show ?case
    by (simp add: bindM_def g comm [of "vectors w (snd operand) ! i" "fst operand"])
qed

lemma accumulator_spec_cong:
  "(\<And>operand. operand \<in> set ops \<Longrightarrow>
      vectors w' (snd operand) ! j = vectors w (snd operand) ! j)
   \<Longrightarrow> accumulator_spec w' ops j = accumulator_spec w ops j"
  unfolding accumulator_spec_def by (rule foldl_cong) simp_all

lemma DoPlusEqScaled_loop_done:
  "\<not> i < sz \<Longrightarrow> DoPlusEqScaled_loop this ops sz i = returnM ()"
  by (subst DoPlusEqScaled_loop.simps) simp

text \<open>
  The loop from index \<open>i\<close> on: the elements below \<open>i\<close> stay, every element from \<open>i\<close> on
  receives its accumulator. An operand may be the target itself: its element \<open>j\<close> is
  read before the target's element \<open>j\<close> is written, and the elements written earlier
  have other indices.
\<close>

lemma DoPlusEqScaled_loop_run:
  fixes w :: "('a::{zero,plus,times}, 'd) world"
  assumes comm: "\<And>x y :: 'a. x * y = y * x"
    and "sz = length (vectors w this)"
    and "\<forall>operand \<in> set ops. length (vectors w (snd operand)) = sz"
    and "i \<le> sz"
  shows "DoPlusEqScaled_loop this ops sz i w =
     (Inr (),
      w\<lparr>vectors := (vectors w)(this :=
            take i (vectors w this) @
            map (\<lambda>j. vectors w this ! j + accumulator_spec w ops j) [i..<sz]),
        accesses := accesses w @ concat (map (index_accesses_spec this ops) [i..<sz])\<rparr>)"
  using assms(2-4)
proof (induction "sz - i" arbitrary: i w)
  case 0
  then have "i = sz" by simp
  moreover have "(vectors w)(this := vectors w this) = vectors w" by simp
  ultimately show ?case
    using "0.prems"(1)
    by (simp add: DoPlusEqScaled_loop_done returnM_def del: fun_upd_apply)
next
  case (Suc n)
  then have lt: "i < sz" by simp
  let ?xs = "vectors w this"
  let ?y = "?xs ! i + accumulator_spec w ops i"
  let ?w1 = "w\<lparr>accesses := accesses w @ map (\<lambda>operand. Read (snd operand) i) ops\<rparr>"
  let ?w2 = "w\<lparr>accesses := accesses w @ map (\<lambda>operand. Read (snd operand) i) ops @
                 [Read this i]\<rparr>"
  let ?w3 = "w\<lparr>vectors := (vectors w)(this := ?xs[i := ?y]),
               accesses := accesses w @ map (\<lambda>operand. Read (snd operand) i) ops @
                 [Read this i, Write this i]\<rparr>"
  have inner: "DoPlusEqScaled_operands i ops 0 w = (Inr (accumulator_spec w ops i), ?w1)"
    using DoPlusEqScaled_operands_run [OF comm, of ops i w 0] Suc.prems lt
    by (simp add: accumulator_spec_def)
  have get: "GetAtIndex this i ?w1 = (Inr (?xs ! i), ?w2)"
    using GetAtIndex_ok [of i ?w1 this] Suc.prems lt by simp
  have set: "SetAtIndex this i ?y ?w2 = (Inr (), ?w3)"
    using SetAtIndex_ok [of i ?w2 this ?y] Suc.prems lt by simp
  have step: "DoPlusEqScaled_loop this ops sz i w = DoPlusEqScaled_loop this ops sz (i + 1) ?w3"
    using lt by (subst DoPlusEqScaled_loop.simps) (simp add: bindM_def inner get set)
  have len3: "sz = length (vectors ?w3 this)"
    using Suc.prems by simp
  have ops3: "\<forall>operand \<in> set ops. length (vectors ?w3 (snd operand)) = sz"
    using Suc.prems by simp
  have IH: "DoPlusEqScaled_loop this ops sz (i + 1) ?w3 =
     (Inr (),
      ?w3\<lparr>vectors := (vectors ?w3)(this :=
            take (i + 1) (vectors ?w3 this) @
            map (\<lambda>j. vectors ?w3 this ! j + accumulator_spec ?w3 ops j) [i + 1..<sz]),
        accesses := accesses ?w3 @ concat (map (index_accesses_spec this ops) [i + 1..<sz])\<rparr>)"
    using Suc.hyps(1) [of "i + 1" ?w3] Suc.hyps(2) len3 ops3 lt by simp
  have same: "vectors ?w3 this ! j + accumulator_spec ?w3 ops j = ?xs ! j + accumulator_spec w ops j"
    if "j \<in> set [i + 1..<sz]" for j
  proof -
    from that have ne: "i \<noteq> j" by simp
    have "accumulator_spec ?w3 ops j = accumulator_spec w ops j"
      by (rule accumulator_spec_cong) (simp add: ne)
    then show ?thesis by (simp add: ne)
  qed
  have tail: "map (\<lambda>j. vectors ?w3 this ! j + accumulator_spec ?w3 ops j) [i + 1..<sz] =
      map (\<lambda>j. ?xs ! j + accumulator_spec w ops j) [i + 1..<sz]"
    by (rule map_cong [OF refl]) (rule same)
  have head: "take (i + 1) (vectors ?w3 this) = take i ?xs @ [?y]"
    using lt Suc.prems(1) by (simp add: take_Suc_conv_app_nth)
  have upt: "[i..<sz] = i # [i + 1..<sz]"
    using lt by (simp add: upt_conv_Cons)
  show ?case
    unfolding step IH tail head upt
    by (simp add: index_accesses_spec_def)
qed

lemma DoPlusEqScaled_run:
  fixes w :: "('a::{zero,plus,times}, 'd) world"
  assumes comm: "\<And>x y :: 'a. x * y = y * x"
    and "\<forall>operand \<in> set ops. size_vb (snd operand) w = size_vb this w"
  shows "DoPlusEqScaled this ops w =
     (Inr (),
      w\<lparr>vectors := (vectors w)(this :=
            map (\<lambda>i. vectors w this ! i + accumulator_spec w ops i) [0..<size_vb this w]),
        accesses := accesses w @
            concat (map (index_accesses_spec this ops) [0..<size_vb this w])\<rparr>)"
  using DoPlusEqScaled_loop_run [OF comm, of "size_vb this w" w this ops 0] assms(2)
  by (simp add: DoPlusEqScaled_def size_vb_def)

lemma PlusEqScaled_run:
  fixes w :: "('a::{zero,plus,times}, 'd) world"
  assumes comm: "\<And>x y :: 'a. x * y = y * x"
    and sizes: "\<forall>operand \<in> set ops. size_vb (snd operand) w = size_vb this w"
  shows "PlusEqScaled this ops w =
     (Inr this,
      w\<lparr>vectors := (vectors w)(this :=
            map (\<lambda>i. vectors w this ! i + accumulator_spec w ops i) [0..<size_vb this w]),
        accesses := accesses w @
            concat (map (index_accesses_spec this ops) [0..<size_vb this w])\<rparr>)"
  by (simp add: PlusEqScaled_def bindM_def PlusEqScaled_check_passes [OF sizes]
      DoPlusEqScaled_run [OF comm sizes] returnM_def)

text \<open>How often one access stands in the accesses of the traversal.\<close>

lemma count_list_concat:
  "count_list (concat xss) e = (\<Sum>xs\<leftarrow>xss. count_list xs e)"
  by (induction xss) simp_all

lemma sum_list_upt_single:
  "(\<Sum>j\<leftarrow>[0..<n]. if j = i then c else 0) = (if i < n then c else (0 :: nat))"
  by (induction n) auto

lemma count_list_operand_reads:
  "count_list (map (\<lambda>operand. Read (snd operand) j) ops) (Read this i) =
     (if j = i then count_list (map snd ops) this else 0)"
  by (induction ops) auto

lemma count_list_operand_writes:
  "count_list (map (\<lambda>operand. Read (snd operand) j) ops) (Write this i) = 0"
  by (induction ops) auto

lemma count_index_major_write:
  "i < n \<Longrightarrow>
   count_list (concat (map (index_accesses_spec this ops) [0..<n])) (Write this i) = 1"
proof -
  assume lt: "i < n"
  have "count_list (index_accesses_spec this ops j) (Write this i) = (if j = i then 1 else 0)"
    for j
    by (simp add: index_accesses_spec_def count_list_operand_writes)
  then show ?thesis
    using lt by (simp add: count_list_concat comp_def sum_list_upt_single)
qed

lemma count_index_major_read:
  "i < n \<Longrightarrow>
   count_list (concat (map (index_accesses_spec this ops) [0..<n])) (Read this i) =
     1 + count_list (map snd ops) this"
proof -
  assume lt: "i < n"
  have "count_list (index_accesses_spec this ops j) (Read this i) =
      (if j = i then 1 + count_list (map snd ops) this else 0)" for j
    by (simp add: index_accesses_spec_def count_list_operand_reads)
  then show ?thesis
    using lt by (simp add: count_list_concat comp_def sum_list_upt_single)
qed

text \<open>
  Claim C2, as stated, fails in its last part when an operand is this vector itself:
  the operands are references and \<open>PlusEqScaled\<close> passes them on as they come. On
  \<open>A = [1, 2]\<close> with the one operand \<open>(5, A)\<close> the traversal is index-major and leaves
  \<open>A = [6, 12]\<close>, but it reads \<open>A[0]\<close> twice, once as the operand and once as the target.
\<close>

theorem DoPlusEqScaled_reads_twice_counterexample:
  "size_vb 0 (fresh_world (store_of [[1, 2 :: int]]) (\<lambda>_. []) :: (int, unit) world) =
     size_vb 0 (fresh_world (store_of [[1, 2 :: int]]) (\<lambda>_. []) :: (int, unit) world) \<and>
   vectors (snd (DoPlusEqScaled 0 [(5, 0)]
     (fresh_world (store_of [[1, 2 :: int]]) (\<lambda>_. []) :: (int, unit) world))) 0 = [6, 12] \<and>
   accesses (snd (DoPlusEqScaled 0 [(5, 0)]
     (fresh_world (store_of [[1, 2 :: int]]) (\<lambda>_. []) :: (int, unit) world))) =
     [Read 0 0, Read 0 0, Write 0 0, Read 0 1, Read 0 1, Write 0 1] \<and>
   count_list (accesses (snd (DoPlusEqScaled 0 [(5, 0)]
     (fresh_world (store_of [[1, 2 :: int]]) (\<lambda>_. []) :: (int, unit) world)))) (Read 0 0) = 2 \<and>
   count_list (accesses (snd (DoPlusEqScaled 0 [(5, 0)]
     (fresh_world (store_of [[1, 2 :: int]]) (\<lambda>_. []) :: (int, unit) world)))) (Read 0 0) \<noteq> 1"
  by (simp add: DoPlusEqScaled_def DoPlusEqScaled_loop.simps GetAtIndex_def SetAtIndex_def
      bindM_def returnM_def fresh_world_def store_of_def size_vb_def)

text \<open>
  Claim C2, amended. Given operands that all have the size \<open>N\<close> of this vector, the
  default \<open>DoPlusEqScaled\<close> returns without an error; afterwards element \<open>i\<close> of this
  vector, for every \<open>i\<close> in \<open>[0, N)\<close>, is its old value plus the accumulator (the sum over
  the operands of scale times the operand's element \<open>i\<close>), and nothing else of the store
  has changed. The element accesses it made are, index by index in increasing order,
  one read of every operand at that index, then one read and one write of \<open>this[i]\<close>:
  the outer loop is over the indices and the inner loop over the operands. So
  \<open>this[i]\<close> is written exactly once per index, and it is read once plus once for every
  operand that is this vector itself: exactly once per index when no operand is this
  vector. The scalar type is any type with a zero, an addition and a multiplication;
  the one law assumed is that its multiplication is commutative.
\<close>

theorem DoPlusEqScaled_index_major:
  fixes w :: "('a::{zero,plus,times}, 'd) world"
  assumes "\<And>x y :: 'a. x * y = y * x"
    and "\<forall>operand \<in> set rhs_scale. size_vb (snd operand) w = size_vb this w"
  shows "DoPlusEqScaled this rhs_scale w =
     (Inr (),
      w\<lparr>vectors := (vectors w)(this :=
            map (\<lambda>i. vectors w this ! i + accumulator_spec w rhs_scale i)
              [0..<size_vb this w]),
        accesses := accesses w @
            concat (map (index_accesses_spec this rhs_scale) [0..<size_vb this w])\<rparr>) \<and>
    (\<forall>i < size_vb this w.
       count_list (concat (map (index_accesses_spec this rhs_scale) [0..<size_vb this w]))
         (Write this i) = 1 \<and>
       count_list (concat (map (index_accesses_spec this rhs_scale) [0..<size_vb this w]))
         (Read this i) = 1 + count_list (map snd rhs_scale) this) \<and>
    (this \<notin> snd ` set rhs_scale \<longrightarrow>
       (\<forall>i < size_vb this w.
          count_list (concat (map (index_accesses_spec this rhs_scale) [0..<size_vb this w]))
            (Read this i) = 1))"
proof -
  have "count_list (map snd rhs_scale) this = 0" if "this \<notin> snd ` set rhs_scale"
    using that by (simp add: count_list_0_iff)
  then show ?thesis
    by (simp add: DoPlusEqScaled_run [OF assms] count_index_major_write count_index_major_read)
qed

text \<open>
  Two operands, neither of them the target, on a vector of three elements:
  \<open>[1, 2, 3] + 2 * [10, 20, 30] + 3 * [100, 200, 300]\<close>.
\<close>

theorem DoPlusEqScaled_index_major_witness:
  "size_vb 1 example_world = size_vb 0 example_world \<and>
   size_vb 2 example_world = size_vb 0 example_world \<and>
   0 \<notin> snd ` set [(2 :: int, 1 :: addr), (3, 2)] \<and>
   DoPlusEqScaled 0 [(2, 1), (3, 2)] example_world =
   (Inr (),
    example_world\<lparr>vectors := (vectors example_world)(0 := [321, 642, 963]),
      accesses := [Read 1 0, Read 2 0, Read 0 0, Write 0 0,
                   Read 1 1, Read 2 1, Read 0 1, Write 0 1,
                   Read 1 2, Read 2 2, Read 0 2, Write 0 2]\<rparr>) \<and>
   count_list (accesses (snd (DoPlusEqScaled 0 [(2, 1), (3, 2)] example_world))) (Read 0 1) = 1 \<and>
   count_list (accesses (snd (DoPlusEqScaled 0 [(2, 1), (3, 2)] example_world))) (Write 0 1) = 1"
proof -
  have h: "\<forall>operand \<in> set [(2 :: int, 1 :: addr), (3, 2)].
      size_vb (snd operand) example_world = size_vb 0 example_world"
    by (simp add: example_defs)
  have c: "x * y = y * x" for x y :: int
    by (rule mult.commute)
  have u: "[0..<3] = [0, 1, 2]" by (simp add: upt_rec)
  show ?thesis
    using h DoPlusEqScaled_index_major [OF c h]
    by (simp add: example_defs accumulator_spec_def index_accesses_spec_def u)
qed

subsection \<open>PlusEqScaled with one operand\<close>

text \<open>
  Claim C3. For vectors of equal size \<open>N\<close> and any scale, \<open>A.PlusEqScaled(scale, B)\<close>
  returns \<open>A\<close> without an error, keeps the size of \<open>A\<close>, leaves every element \<open>i\<close> in
  \<open>[0, N)\<close> of \<open>A\<close> at its old value plus \<open>scale\<close> times the old \<open>B[i]\<close>, and changes no
  other vector. \<open>B\<close> may be \<open>A\<close> itself. The example of the claim, \<open>A = [1, 2, 3]\<close>,
  \<open>B = [10, 20, 30]\<close>, scale 2, is the instance shown after the theorem.
\<close>

theorem PlusEqScaled1_elementwise:
  fixes w :: "('a::comm_ring_1, 'd) world"
  assumes "size_vb rhs w = size_vb this w"
  shows "\<exists>w'. PlusEqScaled1 this scale rhs w = (Inr this, w') \<and>
     size_vb this w' = size_vb this w \<and>
     (\<forall>i < size_vb this w.
        vectors w' this ! i = vectors w this ! i + scale * vectors w rhs ! i) \<and>
     (\<forall>a. a \<noteq> this \<longrightarrow> vectors w' a = vectors w a)"
proof -
  have "\<forall>operand \<in> set [(scale, rhs)]. size_vb (snd operand) w = size_vb this w"
    using assms by simp
  from PlusEqScaled_run [OF mult.commute this] show ?thesis
    by (simp add: PlusEqScaled1_def size_vb_def accumulator_spec_def)
qed

theorem PlusEqScaled1_elementwise_witness:
  "size_vb 1 example_world = size_vb 0 example_world \<and>
   vectors example_world 0 = [1, 2, 3] \<and>
   vectors example_world 1 = [10, 20, 30] \<and>
   fst (PlusEqScaled1 0 2 1 example_world) = Inr 0 \<and>
   vectors (snd (PlusEqScaled1 0 2 1 example_world)) 0 = [21, 42, 63]"
proof -
  have h: "size_vb 1 example_world = size_vb 0 example_world"
    by (simp add: example_defs)
  from PlusEqScaled1_elementwise [OF h, of 2]
  obtain w' where e: "PlusEqScaled1 0 2 1 example_world = (Inr 0, w')"
    and len: "size_vb 0 w' = size_vb 0 example_world"
    and el: "\<forall>i < size_vb 0 example_world.
       vectors w' 0 ! i = vectors example_world 0 ! i + 2 * vectors example_world 1 ! i"
    by blast
  have len3: "length (vectors w' 0) = 3"
    using len by (simp add: example_defs)
  have el3: "vectors w' 0 ! 0 = 21" "vectors w' 0 ! 1 = 42" "vectors w' 0 ! 2 = 63"
    using el by (simp_all add: example_defs)
  have r: "vectors w' 0 = [21, 42, 63]"
    by (rule nth_equalityI)
      (use len3 el3 in \<open>auto simp: less_Suc_eq numeral_3_eq_3 numeral_2_eq_2\<close>)
  have v: "vectors example_world 0 = [1, 2, 3]" "vectors example_world 1 = [10, 20, 30]"
    by (simp_all add: example_defs)
  from h v r e show ?thesis by simp
qed

subsection \<open>Several operands at once and one after the other\<close>

text \<open>
  Claim C4, as stated, fails when the second operand is the target itself: in
  \<open>A.PlusEqScaled({(1, B), (1, A)})\<close> with \<open>A = [1]\<close> and \<open>B = [1]\<close> the one pass reads the old
  \<open>A[0]\<close> and leaves \<open>A = [3]\<close>, while \<open>A.PlusEqScaled(1, B); A.PlusEqScaled(1, A)\<close> reads, in
  its second call, the \<open>A\<close> that the first call has already changed, and leaves \<open>A = [4]\<close>.
  All three vectors have the same size and the arithmetic is that of the integers.
\<close>

theorem PlusEqScaled_sequential_aliasing_counterexample:
  "size_vb 1 (fresh_world (store_of [[1], [1 :: int]]) (\<lambda>_. []) :: (int, unit) world) =
     size_vb 0 (fresh_world (store_of [[1], [1 :: int]]) (\<lambda>_. []) :: (int, unit) world) \<and>
   vectors (snd (PlusEqScaled 0 [(1, 1), (1, 0)]
      (fresh_world (store_of [[1], [1 :: int]]) (\<lambda>_. []) :: (int, unit) world))) 0 = [3] \<and>
   vectors (snd (PlusEqScaled_sequential 0 1 1 1 0
      (fresh_world (store_of [[1], [1 :: int]]) (\<lambda>_. []) :: (int, unit) world))) 0 = [4] \<and>
   vectors (snd (PlusEqScaled 0 [(1, 1), (1, 0)]
      (fresh_world (store_of [[1], [1 :: int]]) (\<lambda>_. []) :: (int, unit) world))) 0 \<noteq>
   vectors (snd (PlusEqScaled_sequential 0 1 1 1 0
      (fresh_world (store_of [[1], [1 :: int]]) (\<lambda>_. []) :: (int, unit) world))) 0"
  by (simp add: PlusEqScaled_sequential_def PlusEqScaled1_def PlusEqScaled_def DoPlusEqScaled_def
      DoPlusEqScaled_loop.simps GetAtIndex_def SetAtIndex_def bindM_def returnM_def throwM_def
      fresh_world_def store_of_def size_vb_def)

text \<open>
  Claim C4, amended. For vectors \<open>A\<close>, \<open>B1\<close>, \<open>B2\<close> of one size, where \<open>B2\<close> is not the vector
  \<open>A\<close> itself (\<open>B1\<close> may be \<open>A\<close>, and \<open>B1\<close> may be \<open>B2\<close>), the call with the two operands
  and the two calls with one operand each both return \<open>A\<close> without an error and leave
  every vector of the store with the same contents, over the scalars of a commutative
  ring.
\<close>

theorem PlusEqScaled_sequential_same:
  fixes w :: "('a::comm_ring_1, 'd) world"
  assumes "size_vb b1 w = size_vb this w" and "size_vb b2 w = size_vb this w"
    and "b2 \<noteq> this"
  shows "fst (PlusEqScaled this [(s1, b1), (s2, b2)] w) = Inr this \<and>
    fst (PlusEqScaled_sequential this s1 b1 s2 b2 w) = Inr this \<and>
    vectors (snd (PlusEqScaled this [(s1, b1), (s2, b2)] w)) =
    vectors (snd (PlusEqScaled_sequential this s1 b1 s2 b2 w))"
proof -
  let ?n = "size_vb this w"
  let ?A = "vectors w this" and ?B1 = "vectors w b1" and ?B2 = "vectors w b2"
  have both: "\<forall>operand \<in> set [(s1, b1), (s2, b2)]. size_vb (snd operand) w = size_vb this w"
    using assms by simp
  have one: "\<forall>operand \<in> set [(s1, b1)]. size_vb (snd operand) w = size_vb this w"
    using assms by simp
  obtain w1 where w1: "PlusEqScaled this [(s1, b1)] w = (Inr this, w1)"
    and v1: "vectors w1 = (vectors w)(this := map (\<lambda>i. ?A ! i + s1 * ?B1 ! i) [0..<?n])"
    using PlusEqScaled_run [OF mult.commute one] by (simp add: accumulator_spec_def)
  have two: "\<forall>operand \<in> set [(s2, b2)]. size_vb (snd operand) w1 = size_vb this w1"
    using assms by (simp add: v1 size_vb_def)
  have n1: "size_vb this w1 = ?n"
    by (simp add: v1 size_vb_def)
  have B2: "vectors w1 b2 = ?B2"
    using assms(3) by (simp add: v1)
  obtain w2 where w2: "PlusEqScaled this [(s2, b2)] w1 = (Inr this, w2)"
    and v2: "vectors w2 =
      (vectors w1)(this := map (\<lambda>i. vectors w1 this ! i + s2 * ?B2 ! i) [0..<?n])"
    using PlusEqScaled_run [OF mult.commute two] by (simp add: accumulator_spec_def n1 B2)
  have seq: "PlusEqScaled_sequential this s1 b1 s2 b2 w = (Inr this, w2)"
    by (simp add: PlusEqScaled_sequential_def PlusEqScaled1_def bindM_def w1 w2)
  obtain w3 where w3: "PlusEqScaled this [(s1, b1), (s2, b2)] w = (Inr this, w3)"
    and v3: "vectors w3 =
      (vectors w)(this := map (\<lambda>i. ?A ! i + (s1 * ?B1 ! i + s2 * ?B2 ! i)) [0..<?n])"
    using PlusEqScaled_run [OF mult.commute both] by (simp add: accumulator_spec_def)
  have meq: "map (\<lambda>i. map (\<lambda>i. ?A ! i + s1 * ?B1 ! i) [0..<?n] ! i + s2 * ?B2 ! i) [0..<?n] =
      map (\<lambda>i. ?A ! i + (s1 * ?B1 ! i + s2 * ?B2 ! i)) [0..<?n]"
    by (rule map_cong [OF refl]) (simp add: add.assoc)
  have "vectors w2 = vectors w3"
    unfolding v2 v3 v1 by (simp only: fun_upd_upd fun_upd_same meq)
  then show ?thesis
    by (simp add: seq w3)
qed

text \<open>The first operand is the target itself, the second is another vector.\<close>

theorem PlusEqScaled_sequential_same_witness:
  "size_vb 0 example_world = size_vb 0 example_world \<and>
   size_vb 1 example_world = size_vb 0 example_world \<and>
   (1 :: addr) \<noteq> 0 \<and>
   vectors (snd (PlusEqScaled 0 [(2, 0), (3, 1)] example_world)) 0 = [33, 66, 99] \<and>
   vectors (snd (PlusEqScaled_sequential 0 2 0 3 1 example_world)) 0 = [33, 66, 99]"
proof -
  have h0: "size_vb 0 example_world = size_vb 0 example_world"
    by simp
  have h1: "size_vb 1 example_world = size_vb 0 example_world"
    by (simp add: example_defs)
  have ne: "(1 :: addr) \<noteq> 0"
    by simp
  have both: "\<forall>operand \<in> set [(2 :: int, 0 :: addr), (3, 1)].
      size_vb (snd operand) example_world = size_vb 0 example_world"
    by (simp add: example_defs)
  have u: "[0..<3] = [0, 1, 2]" by (simp add: upt_rec)
  have m: "vectors (snd (PlusEqScaled 0 [(2, 0), (3, 1)] example_world)) 0 = [33, 66, 99]"
    unfolding PlusEqScaled_run [OF mult.commute both]
    by (simp add: accumulator_spec_def example_defs u)
  from PlusEqScaled_sequential_same [OF h0 h1 ne, of 2 3] m h1 show ?thesis
    by simp
qed

subsection \<open>CopyToVector\<close>

lemma CopyToVector_loop_done:
  "\<not> i < size_vb this w \<Longrightarrow> CopyToVector_loop this i vec w = (Inr vec, w)"
  by (subst CopyToVector_loop.simps) (simp add: returnM_def)

text \<open>
  Whatever the local vector holds at first, as long as it has \<open>size()\<close> coefficients:
  the loop from \<open>i\<close> on overwrites every coefficient from \<open>i\<close> on with the element of
  the same index, and no coefficient access is outside the local vector.
\<close>

lemma CopyToVector_loop_all:
  assumes "length vec = length (vectors w this)" and "i \<le> length (vectors w this)"
  shows "CopyToVector_loop this i vec w =
     (Inr (take i vec @ drop i (vectors w this)),
      w\<lparr>accesses := accesses w @ map (Read this) [i..<length (vectors w this)]\<rparr>)"
  using assms
proof (induction "length (vectors w this) - i" arbitrary: i vec w)
  case 0
  then show ?case
    by (simp add: CopyToVector_loop_done size_vb_def)
next
  case (Suc n)
  let ?xs = "vectors w this"
  let ?w1 = "w\<lparr>accesses := accesses w @ [Read this i]\<rparr>"
  from Suc have lt: "i < length ?xs" by simp
  have get: "GetAtIndex this i w = (Inr (?xs ! i), ?w1)"
    using lt by (simp add: GetAtIndex_ok)
  have put: "coeff_write vec i (?xs ! i) ?w1 = (Inr (vec[i := ?xs ! i]), ?w1)"
    using lt Suc.prems by (simp add: coeff_write_def returnM_def)
  have step: "CopyToVector_loop this i vec w = CopyToVector_loop this (i + 1) (vec[i := ?xs ! i]) ?w1"
    using lt by (subst CopyToVector_loop.simps) (simp add: bindM_def get put size_vb_def)
  have IH: "CopyToVector_loop this (i + 1) (vec[i := ?xs ! i]) ?w1 =
     (Inr (take (i + 1) (vec[i := ?xs ! i]) @ drop (i + 1) (vectors ?w1 this)),
      ?w1\<lparr>accesses := accesses ?w1 @ map (Read this) [i + 1..<length (vectors ?w1 this)]\<rparr>)"
    using Suc.hyps(1) [of ?w1 "i + 1" "vec[i := ?xs ! i]"] Suc.hyps(2) Suc.prems lt by simp
  have head: "take (i + 1) (vec[i := ?xs ! i]) = take i vec @ [?xs ! i]"
    using lt Suc.prems(1) by (simp add: take_Suc_conv_app_nth)
  have tail: "drop i ?xs = ?xs ! i # drop (i + 1) ?xs"
    using lt by (simp add: Cons_nth_drop_Suc)
  have upt: "[i..<length ?xs] = i # [i + 1..<length ?xs]"
    using lt by (simp add: upt_conv_Cons)
  show ?case
    unfolding step IH head tail upt by simp
qed

lemma CopyToVector_run:
  "CopyToVector this w =
     (Inr (vectors w this),
      w\<lparr>accesses := accesses w @ map (Read this) [0..<size_vb this w]\<rparr>)"
  using CopyToVector_loop_all [of "replicate (size_vb this w) 0" w this 0]
  by (simp add: CopyToVector_def size_vb_def)

subsection \<open>SetFrom\<close>

lemma SetFrom_loop_done:
  "\<not> i < size_vb val w \<Longrightarrow> SetFrom_loop this val i w = (Inr (), w)"
  by (subst SetFrom_loop.simps) (simp add: returnM_def)

lemma SetFrom_loop_run:
  assumes "length (vectors w val) = length (vectors w this)"
    and "i \<le> length (vectors w this)"
  shows "SetFrom_loop this val i w =
     (Inr (),
      w\<lparr>vectors := (vectors w)(this := take i (vectors w this) @ drop i (vectors w val)),
        accesses := accesses w @
          concat (map (\<lambda>j. [Read val j, Write this j]) [i..<length (vectors w this)])\<rparr>)"
  using assms
proof (induction "length (vectors w this) - i" arbitrary: i w)
  case 0
  then have "i = length (vectors w this)" by simp
  moreover have "(vectors w)(this := vectors w this) = vectors w" by simp
  ultimately show ?case
    using "0.prems"(1)
    by (simp add: SetFrom_loop_done size_vb_def del: fun_upd_apply)
next
  case (Suc n)
  let ?xs = "vectors w this" and ?ys = "vectors w val"
  let ?w1 = "w\<lparr>accesses := accesses w @ [Read val i]\<rparr>"
  let ?w2 = "w\<lparr>vectors := (vectors w)(this := ?xs[i := ?ys ! i]),
               accesses := accesses w @ [Read val i, Write this i]\<rparr>"
  from Suc have lt: "i < length ?xs" by simp
  have get: "GetAtIndex val i w = (Inr (?ys ! i), ?w1)"
    using lt Suc.prems by (simp add: GetAtIndex_ok)
  have set: "SetAtIndex this i (?ys ! i) ?w1 = (Inr (), ?w2)"
    using SetAtIndex_ok [of i ?w1 this "?ys ! i"] lt by simp
  have step: "SetFrom_loop this val i w = SetFrom_loop this val (i + 1) ?w2"
    using lt Suc.prems(1)
    by (subst SetFrom_loop.simps) (simp add: bindM_def get set size_vb_def)
  have len2: "length (vectors ?w2 val) = length (vectors ?w2 this)"
    using Suc.prems by simp
  have IH: "SetFrom_loop this val (i + 1) ?w2 =
     (Inr (),
      ?w2\<lparr>vectors := (vectors ?w2)(this :=
            take (i + 1) (vectors ?w2 this) @ drop (i + 1) (vectors ?w2 val)),
        accesses := accesses ?w2 @
          concat (map (\<lambda>j. [Read val j, Write this j]) [i + 1..<length (vectors ?w2 this)])\<rparr>)"
    using Suc.hyps(1) [of ?w2 "i + 1"] Suc.hyps(2) len2 lt by simp
  have head: "take (i + 1) (vectors ?w2 this) = take i ?xs @ [?ys ! i]"
    using lt by (simp add: take_Suc_conv_app_nth)
  have rest: "drop (i + 1) (vectors ?w2 val) = drop (i + 1) ?ys"
    by simp
  have tail: "drop i ?ys = ?ys ! i # drop (i + 1) ?ys"
    using lt Suc.prems(1) by (simp add: Cons_nth_drop_Suc)
  have len: "length (vectors ?w2 this) = length ?xs"
    by simp
  have upt: "[i..<length ?xs] = i # [i + 1..<length ?xs]"
    using lt by (simp add: upt_conv_Cons)
  show ?case
    unfolding step IH head rest tail len upt by simp
qed

lemma SetFrom_run:
  assumes "size_vb val w = size_vb this w"
  shows "SetFrom this val w =
     (Inr (),
      w\<lparr>vectors := (vectors w)(this := vectors w val),
        accesses := accesses w @
          concat (map (\<lambda>j. [Read val j, Write this j]) [0..<size_vb this w])\<rparr>)"
  using SetFrom_loop_run [of w val this 0] assms
  by (simp add: SetFrom_def DRAKE_THROW_UNLESS_def size_vb_def)

text \<open>
  Claim C5. \<open>A.SetFrom(B)\<close> fails with the error of its size check, and leaves the
  store as it was, when the sizes differ. When they agree it returns without an
  error, and \<open>A.CopyToVector()\<close> and \<open>B.CopyToVector()\<close> called after it return the same
  dense vector, which holds the elements that \<open>B\<close> had before the call.
\<close>

theorem SetFrom_copies:
  "(size_vb val w \<noteq> size_vb this w \<longrightarrow>
      SetFrom this val w = (Inl (assertion_error ''value.size() == size()''), w)) \<and>
   (size_vb val w = size_vb this w \<longrightarrow>
      fst (SetFrom this val w) = Inr () \<and>
      fst (bindM (SetFrom this val) (\<lambda>_.
           bindM (CopyToVector this) (\<lambda>a.
           bindM (CopyToVector val) (\<lambda>b. returnM (a, b)))) w) =
        Inr (vectors w val, vectors w val))"
proof (intro conjI impI)
  assume "size_vb val w \<noteq> size_vb this w"
  then show "SetFrom this val w = (Inl (assertion_error ''value.size() == size()''), w)"
    by (simp add: SetFrom_def DRAKE_THROW_UNLESS_def)
next
  assume eq: "size_vb val w = size_vb this w"
  show "fst (SetFrom this val w) = Inr ()"
    by (simp add: SetFrom_run [OF eq])
  show "fst (bindM (SetFrom this val) (\<lambda>_.
           bindM (CopyToVector this) (\<lambda>a.
           bindM (CopyToVector val) (\<lambda>b. returnM (a, b)))) w) =
        Inr (vectors w val, vectors w val)"
    by (simp add: bindM_def SetFrom_run [OF eq] CopyToVector_run returnM_def)
qed

text \<open>Vector 3 has one element and vector 0 three; vectors 0 and 1 have three each.\<close>

theorem SetFrom_copies_witness:
  "size_vb 3 example_world \<noteq> size_vb 0 example_world \<and>
   SetFrom 0 3 example_world = (Inl (assertion_error ''value.size() == size()''), example_world) \<and>
   size_vb 1 example_world = size_vb 0 example_world \<and>
   fst (SetFrom 0 1 example_world) = Inr () \<and>
   fst (bindM (SetFrom 0 1) (\<lambda>_.
        bindM (CopyToVector 0) (\<lambda>a.
        bindM (CopyToVector 1) (\<lambda>b. returnM (a, b)))) example_world) =
     Inr ([10, 20, 30], [10, 20, 30])"
proof -
  have ne: "size_vb 3 example_world \<noteq> size_vb 0 example_world"
    by (simp add: example_defs)
  have eq: "size_vb 1 example_world = size_vb 0 example_world"
    by (simp add: example_defs)
  have v: "vectors example_world 1 = [10, 20, 30]"
    by (simp add: example_defs)
  from ne eq SetFrom_copies [of 3 example_world 0] SetFrom_copies [of 1 example_world 0]
  show ?thesis
    unfolding v by blast
qed

subsection \<open>SetZero\<close>

lemma SetZero_loop_done:
  "\<not> i < sz \<Longrightarrow> SetZero_loop this sz i = returnM ()"
  by (subst SetZero_loop.simps) simp

lemma SetZero_loop_run:
  fixes w :: "('a::zero, 'd) world"
  assumes "sz = length (vectors w this)" and "i \<le> sz"
  shows "SetZero_loop this sz i w =
     (Inr (),
      w\<lparr>vectors := (vectors w)(this := take i (vectors w this) @ replicate (sz - i) 0),
        accesses := accesses w @ map (Write this) [i..<sz]\<rparr>)"
  using assms
proof (induction "sz - i" arbitrary: i w)
  case 0
  then have "i = sz" by simp
  moreover have "(vectors w)(this := vectors w this) = vectors w" by simp
  ultimately show ?case
    using "0.prems"(1)
    by (simp add: SetZero_loop_done returnM_def del: fun_upd_apply)
next
  case (Suc n)
  let ?xs = "vectors w this"
  let ?w1 = "w\<lparr>vectors := (vectors w)(this := ?xs[i := 0]),
               accesses := accesses w @ [Write this i]\<rparr>"
  from Suc have lt: "i < sz" by simp
  have set: "SetAtIndex this i 0 w = (Inr (), ?w1)"
    using lt Suc.prems by (simp add: SetAtIndex_ok)
  have step: "SetZero_loop this sz i w = SetZero_loop this sz (i + 1) ?w1"
    using lt by (subst SetZero_loop.simps) (simp add: bindM_def set)
  have IH: "SetZero_loop this sz (i + 1) ?w1 =
     (Inr (),
      ?w1\<lparr>vectors := (vectors ?w1)(this :=
            take (i + 1) (vectors ?w1 this) @ replicate (sz - (i + 1)) 0),
        accesses := accesses ?w1 @ map (Write this) [i + 1..<sz]\<rparr>)"
    using Suc.hyps(1) [of "i + 1" ?w1] Suc.hyps(2) Suc.prems lt by simp
  have head: "take (i + 1) (vectors ?w1 this) = take i ?xs @ [0]"
    using lt Suc.prems(1) by (simp add: take_Suc_conv_app_nth)
  have rep: "replicate (sz - i) (0 :: 'a) = 0 # replicate (sz - (i + 1)) 0"
    using lt by (simp add: Suc_diff_Suc flip: replicate_Suc)
  have upt: "[i..<sz] = i # [i + 1..<sz]"
    using lt by (simp add: upt_conv_Cons)
  show ?case
    unfolding step IH head rep upt by simp
qed

lemma SetZero_run:
  fixes w :: "('a::zero, 'd) world"
  shows "SetZero this w =
     (Inr (),
      w\<lparr>vectors := (vectors w)(this := replicate (size_vb this w) 0),
        accesses := accesses w @ map (Write this) [0..<size_vb this w]\<rparr>)"
  using SetZero_loop_run [of "size_vb this w" w this 0]
  by (simp add: SetZero_def size_vb_def)

text \<open>
  Claim C6. For a vector of any size \<open>N\<close>, zero included, \<open>SetZero\<close> returns without an
  error and leaves \<open>N\<close> zeros in the vector, and \<open>CopyToVector\<close> called after it returns
  a dense vector of \<open>N\<close> zeros. On an empty vector both calls return at once, touch no
  element, leave the store as it was, and the dense vector is empty.
\<close>

theorem SetZero_then_CopyToVector:
  fixes w :: "('a::zero, 'd) world"
  shows "fst (SetZero this w) = Inr () \<and>
    vectors (snd (SetZero this w)) this = replicate (size_vb this w) 0 \<and>
    fst (bindM (SetZero this) (\<lambda>_. CopyToVector this) w) = Inr (replicate (size_vb this w) 0) \<and>
    (size_vb this w = 0 \<longrightarrow>
       SetZero this w = (Inr (), w) \<and> CopyToVector this w = (Inr [], w) \<and>
       bindM (SetZero this) (\<lambda>_. CopyToVector this) w = (Inr [], w))"
proof -
  have "(vectors w)(this := []) = vectors w" if "vectors w this = []"
    using that by (metis fun_upd_triv)
  then show ?thesis
    by (simp add: bindM_def SetZero_run CopyToVector_run size_vb_def)
qed

text \<open>Vector 0 has three elements, vector 9 is empty.\<close>

theorem SetZero_then_CopyToVector_witness:
  "fst (bindM (SetZero 0) (\<lambda>_. CopyToVector 0) example_world) = Inr [0, 0, 0] \<and>
   size_vb 9 example_world = 0 \<and>
   SetZero 9 example_world = (Inr (), example_world) \<and>
   CopyToVector 9 example_world = (Inr [], example_world)"
proof -
  have n: "size_vb 0 example_world = 3" and z: "size_vb 9 example_world = 0"
    by (simp_all add: example_defs)
  have r: "replicate 3 (0 :: int) = [0, 0, 0]"
    by (simp add: numeral_3_eq_3)
  from SetZero_then_CopyToVector [of 0 example_world] SetZero_then_CopyToVector [of 9 example_world] z
  show ?thesis
    unfolding n r by blast
qed

subsection \<open>CopyToPreSizedVector\<close>

lemma eigen_read_ok:
  "i < length (eigen w p) \<Longrightarrow> eigen_read p i w = (Inr (eigen w p ! i), w)"
  by (simp add: eigen_read_def coeff_read_def returnM_def)

lemma eigen_write_ok:
  "i < length (eigen w p) \<Longrightarrow>
   eigen_write p i x w = (Inr (), w\<lparr>eigen := (eigen w)(p := (eigen w p)[i := x])\<rparr>)"
  by (simp add: eigen_write_def coeff_write_def returnM_def)

lemma CopyToPreSizedVector_loop_done:
  "\<not> i < size_vb this w \<Longrightarrow> CopyToPreSizedVector_loop this p i w = (Inr (), w)"
  by (subst CopyToPreSizedVector_loop.simps) (simp add: returnM_def)

lemma CopyToPreSizedVector_loop_run:
  assumes "length (eigen w p) = length (vectors w this)"
    and "i \<le> length (vectors w this)"
  shows "CopyToPreSizedVector_loop this p i w =
     (Inr (),
      w\<lparr>eigen := (eigen w)(p := take i (eigen w p) @ drop i (vectors w this)),
        accesses := accesses w @ map (Read this) [i..<length (vectors w this)]\<rparr>)"
  using assms
proof (induction "length (vectors w this) - i" arbitrary: i w)
  case 0
  then have "i = length (vectors w this)" by simp
  moreover have "(eigen w)(p := eigen w p) = eigen w" by simp
  ultimately show ?case
    using "0.prems"(1)
    by (simp add: CopyToPreSizedVector_loop_done size_vb_def del: fun_upd_apply)
next
  case (Suc n)
  let ?xs = "vectors w this" and ?ys = "eigen w p"
  let ?w1 = "w\<lparr>accesses := accesses w @ [Read this i]\<rparr>"
  let ?w2 = "w\<lparr>eigen := (eigen w)(p := ?ys[i := ?xs ! i]),
               accesses := accesses w @ [Read this i]\<rparr>"
  from Suc have lt: "i < length ?xs" by simp
  have get: "GetAtIndex this i w = (Inr (?xs ! i), ?w1)"
    using lt by (simp add: GetAtIndex_ok)
  have put: "eigen_write p i (?xs ! i) ?w1 = (Inr (), ?w2)"
    using eigen_write_ok [of i ?w1 p "?xs ! i"] lt Suc.prems(1) by simp
  have step: "CopyToPreSizedVector_loop this p i w = CopyToPreSizedVector_loop this p (i + 1) ?w2"
    using lt by (subst CopyToPreSizedVector_loop.simps) (simp add: bindM_def get put size_vb_def)
  have IH: "CopyToPreSizedVector_loop this p (i + 1) ?w2 =
     (Inr (),
      ?w2\<lparr>eigen := (eigen ?w2)(p := take (i + 1) (eigen ?w2 p) @ drop (i + 1) (vectors ?w2 this)),
        accesses := accesses ?w2 @ map (Read this) [i + 1..<length (vectors ?w2 this)]\<rparr>)"
    using Suc.hyps(1) [of ?w2 "i + 1"] Suc.hyps(2) Suc.prems lt by simp
  have head: "take (i + 1) (eigen ?w2 p) = take i ?ys @ [?xs ! i]"
    using lt Suc.prems(1) by (simp add: take_Suc_conv_app_nth)
  have tail: "drop i ?xs = ?xs ! i # drop (i + 1) ?xs"
    using lt by (simp add: Cons_nth_drop_Suc)
  have same: "vectors ?w2 this = ?xs"
    by simp
  have upt: "[i..<length ?xs] = i # [i + 1..<length ?xs]"
    using lt by (simp add: upt_conv_Cons)
  show ?case
    unfolding step IH head same tail upt by simp
qed

lemma CopyToPreSizedVector_null:
  "CopyToPreSizedVector this None w = (Inl (assertion_error ''vec != nullptr''), w)"
  by (simp add: CopyToPreSizedVector_def DRAKE_THROW_UNLESS_def)

lemma CopyToPreSizedVector_mismatch:
  "rows p w \<noteq> size_vb this w \<Longrightarrow>
   CopyToPreSizedVector this (Some p) w = (Inl (assertion_error ''vec->rows() == size()''), w)"
  by (simp add: CopyToPreSizedVector_def DRAKE_THROW_UNLESS_def bindM_def returnM_def throwM_def)

lemma CopyToPreSizedVector_run:
  assumes "rows p w = size_vb this w"
  shows "CopyToPreSizedVector this (Some p) w =
     (Inr (),
      w\<lparr>eigen := (eigen w)(p := vectors w this),
        accesses := accesses w @ map (Read this) [0..<size_vb this w]\<rparr>)"
  using CopyToPreSizedVector_loop_run [of w p this 0] assms
  by (simp add: CopyToPreSizedVector_def DRAKE_THROW_UNLESS_def bindM_def returnM_def
      rows_def size_vb_def)

text \<open>
  Claim C7. \<open>CopyToPreSizedVector\<close> fails on a null output with the error of the check
  \<open>vec != nullptr\<close>, and on an output whose row count is not \<open>size()\<close> with the error of
  the check \<open>vec->rows() == size()\<close>; the two errors are different values. In both
  failures the store is as it was before the call. When the row count is \<open>size()\<close> the
  call returns without an error, the output holds the elements of the vector, and no
  other dense vector has changed. In every case no vector of the store has changed.
\<close>

theorem CopyToPreSizedVector_outcomes:
  "CopyToPreSizedVector this None w = (Inl (assertion_error ''vec != nullptr''), w) \<and>
   (rows p w \<noteq> size_vb this w \<longrightarrow>
      CopyToPreSizedVector this (Some p) w =
        (Inl (assertion_error ''vec->rows() == size()''), w)) \<and>
   assertion_error ''vec != nullptr'' \<noteq> assertion_error ''vec->rows() == size()'' \<and>
   (rows p w = size_vb this w \<longrightarrow>
      fst (CopyToPreSizedVector this (Some p) w) = Inr () \<and>
      eigen (snd (CopyToPreSizedVector this (Some p) w)) p = vectors w this \<and>
      (\<forall>q. q \<noteq> p \<longrightarrow> eigen (snd (CopyToPreSizedVector this (Some p) w)) q = eigen w q)) \<and>
   vectors (snd (CopyToPreSizedVector this vec w)) = vectors w"
proof -
  have "vectors (snd (CopyToPreSizedVector this vec w)) = vectors w"
  proof (cases vec)
    case None
    then show ?thesis by (simp add: CopyToPreSizedVector_null)
  next
    case (Some q)
    then show ?thesis
      by (cases "rows q w = size_vb this w")
        (simp_all add: CopyToPreSizedVector_run CopyToPreSizedVector_mismatch)
  qed
  then show ?thesis
    by (simp add: CopyToPreSizedVector_null CopyToPreSizedVector_mismatch CopyToPreSizedVector_run)
qed

text \<open>
  Of vector 0, with three elements: into no output, into the dense vector 1 of one
  coefficient, and into the dense vector 0 of three coefficients.
\<close>

theorem CopyToPreSizedVector_outcomes_witness:
  "CopyToPreSizedVector 0 None example_world =
     (Inl (assertion_error ''vec != nullptr''), example_world) \<and>
   rows 1 example_world \<noteq> size_vb 0 example_world \<and>
   CopyToPreSizedVector 0 (Some 1) example_world =
     (Inl (assertion_error ''vec->rows() == size()''), example_world) \<and>
   rows 0 example_world = size_vb 0 example_world \<and>
   eigen example_world 0 = [5, 6, 7] \<and>
   fst (CopyToPreSizedVector 0 (Some 0) example_world) = Inr () \<and>
   eigen (snd (CopyToPreSizedVector 0 (Some 0) example_world)) 0 = [1, 2, 3] \<and>
   vectors (snd (CopyToPreSizedVector 0 (Some 0) example_world)) = vectors example_world"
proof -
  have ne: "rows 1 example_world \<noteq> size_vb 0 example_world"
    and eq: "rows 0 example_world = size_vb 0 example_world"
    and v: "vectors example_world 0 = [1, 2, 3]"
    and e: "eigen example_world 0 = [5, 6, 7]"
    by (simp_all add: example_defs)
  from ne eq e
    CopyToPreSizedVector_outcomes [of 0 example_world 1 "Some 0"]
    CopyToPreSizedVector_outcomes [of 0 example_world 0 "Some 0"]
  show ?thesis
    unfolding v by blast
qed

subsection \<open>ScaleAndAddToVector\<close>

lemma ScaleAndAddToVector_loop_done:
  "\<not> i < size_vb this w \<Longrightarrow> ScaleAndAddToVector_loop this scale p i w = (Inr (), w)"
  by (subst ScaleAndAddToVector_loop.simps) (simp add: returnM_def)

text \<open>
  A reference that reads \<open>s\<close> and is not a coefficient of the dense vector \<open>p\<close> still
  reads \<open>s\<close> after a write to \<open>p\<close>.
\<close>

lemma read_ref_frame:
  assumes "read_ref scale w = (Inr s, w)" and "\<forall>k. scale \<noteq> Coefficient p k"
  shows "read_ref scale (w\<lparr>eigen := (eigen w)(p := ys), accesses := a\<rparr>) =
    (Inr s, w\<lparr>eigen := (eigen w)(p := ys), accesses := a\<rparr>)"
  using assms
  by (cases scale) (auto simp: coeff_read_def returnM_def throwM_def split: if_splits)

lemma ScaleAndAddToVector_loop_run:
  fixes w :: "('a::{plus,times}, 'd) world"
  assumes "length (eigen w p) = length (vectors w this)"
    and "i \<le> length (vectors w this)"
    and "read_ref scale w = (Inr s, w)"
    and "\<forall>k. scale \<noteq> Coefficient p k"
  shows "ScaleAndAddToVector_loop this scale p i w =
     (Inr (),
      w\<lparr>eigen := (eigen w)(p := take i (eigen w p) @
            map (\<lambda>j. eigen w p ! j + s * vectors w this ! j) [i..<length (vectors w this)]),
        accesses := accesses w @ map (Read this) [i..<length (vectors w this)]\<rparr>)"
  using assms
proof (induction "length (vectors w this) - i" arbitrary: i w)
  case 0
  then have "i = length (vectors w this)" by simp
  moreover have "(eigen w)(p := eigen w p) = eigen w" by simp
  ultimately show ?case
    using "0.prems"(1)
    by (simp add: ScaleAndAddToVector_loop_done size_vb_def del: fun_upd_apply)
next
  case (Suc n)
  let ?xs = "vectors w this" and ?ys = "eigen w p"
  let ?y = "?ys ! i + s * ?xs ! i"
  let ?w1 = "w\<lparr>accesses := accesses w @ [Read this i]\<rparr>"
  let ?w2 = "w\<lparr>eigen := (eigen w)(p := ?ys[i := ?y]),
               accesses := accesses w @ [Read this i]\<rparr>"
  from Suc have lt: "i < length ?xs" by simp
  have ref: "read_ref scale w = (Inr s, w)"
    by (rule Suc.prems(3))
  have get: "GetAtIndex this i w = (Inr (?xs ! i), ?w1)"
    using lt by (simp add: GetAtIndex_ok)
  have rd: "eigen_read p i ?w1 = (Inr (?ys ! i), ?w1)"
    using eigen_read_ok [of i ?w1 p] lt Suc.prems(1) by simp
  have put: "eigen_write p i ?y ?w1 = (Inr (), ?w2)"
    using eigen_write_ok [of i ?w1 p ?y] lt Suc.prems(1) by simp
  have step: "ScaleAndAddToVector_loop this scale p i w =
      ScaleAndAddToVector_loop this scale p (i + 1) ?w2"
    using lt
    by (subst ScaleAndAddToVector_loop.simps) (simp add: bindM_def ref get rd put size_vb_def)
  have ref2: "read_ref scale ?w2 = (Inr s, ?w2)"
    using read_ref_frame [OF Suc.prems(3,4)] .
  have IH: "ScaleAndAddToVector_loop this scale p (i + 1) ?w2 =
     (Inr (),
      ?w2\<lparr>eigen := (eigen ?w2)(p := take (i + 1) (eigen ?w2 p) @
            map (\<lambda>j. eigen ?w2 p ! j + s * vectors ?w2 this ! j)
              [i + 1..<length (vectors ?w2 this)]),
        accesses := accesses ?w2 @ map (Read this) [i + 1..<length (vectors ?w2 this)]\<rparr>)"
    using Suc.hyps(1) [of ?w2 "i + 1", OF _ _ _ ref2 Suc.prems(4)] Suc.hyps(2) Suc.prems(1,2) lt
    by simp
  have head: "take (i + 1) (eigen ?w2 p) = take i ?ys @ [?y]"
    using lt Suc.prems(1) by (simp add: take_Suc_conv_app_nth)
  have same: "vectors ?w2 this = ?xs"
    by simp
  have tail: "map (\<lambda>j. eigen ?w2 p ! j + s * ?xs ! j) [i + 1..<length ?xs] =
      map (\<lambda>j. ?ys ! j + s * ?xs ! j) [i + 1..<length ?xs]"
    by (rule map_cong [OF refl]) simp
  have upt: "[i..<length ?xs] = i # [i + 1..<length ?xs]"
    using lt by (simp add: upt_conv_Cons)
  show ?case
    unfolding step IH same head tail upt by simp
qed

lemma ScaleAndAddToVector_null:
  "ScaleAndAddToVector this scale None w = (Inl (assertion_error ''vec != nullptr''), w)"
  by (simp add: ScaleAndAddToVector_def DRAKE_THROW_UNLESS_def)

lemma ScaleAndAddToVector_mismatch:
  "rows p w \<noteq> size_vb this w \<Longrightarrow>
   ScaleAndAddToVector this scale (Some p) w =
     (Inl (out_of_range ''Addends must be the same size.''), w)"
  by (simp add: ScaleAndAddToVector_def DRAKE_THROW_UNLESS_def throwM_def)

lemma ScaleAndAddToVector_run:
  fixes w :: "('a::{plus,times}, 'd) world"
  assumes "rows p w = size_vb this w"
    and "read_ref scale w = (Inr s, w)"
    and "\<forall>k. scale \<noteq> Coefficient p k"
  shows "ScaleAndAddToVector this scale (Some p) w =
     (Inr (),
      w\<lparr>eigen := (eigen w)(p :=
            map (\<lambda>j. eigen w p ! j + s * vectors w this ! j) [0..<size_vb this w]),
        accesses := accesses w @ map (Read this) [0..<size_vb this w]\<rparr>)"
  using ScaleAndAddToVector_loop_run [of w p this 0 scale s] assms
  by (simp add: ScaleAndAddToVector_def DRAKE_THROW_UNLESS_def rows_def size_vb_def)

text \<open>
  Claim C8, as stated, fails when \<open>scale\<close> refers to a coefficient of the output: the
  parameter is a \<open>const T&\<close> and the loop reads it in every iteration, after the
  iterations before it have written the output. With the vector \<open>[1, 1]\<close>, the output
  \<open>[2, 10]\<close> and \<open>scale\<close> referring to the output's coefficient 0, which holds 2 when the
  call is made, the output becomes \<open>[4, 14]\<close>: its coefficient 1 is \<open>10 + 4 * 1\<close>, not
  \<open>10 + 2 * 1\<close>.
\<close>

theorem ScaleAndAddToVector_scale_aliasing_counterexample:
  "rows 0 (fresh_world (store_of [[1, 1 :: int]]) (store_of [[2, 10]]) :: (int, unit) world) =
     size_vb 0 (fresh_world (store_of [[1, 1 :: int]]) (store_of [[2, 10]]) :: (int, unit) world) \<and>
   fst (read_ref (Coefficient 0 0)
     (fresh_world (store_of [[1, 1 :: int]]) (store_of [[2, 10]]) :: (int, unit) world)) = Inr 2 \<and>
   fst (ScaleAndAddToVector 0 (Coefficient 0 0) (Some 0)
     (fresh_world (store_of [[1, 1 :: int]]) (store_of [[2, 10]]) :: (int, unit) world)) = Inr () \<and>
   eigen (snd (ScaleAndAddToVector 0 (Coefficient 0 0) (Some 0)
     (fresh_world (store_of [[1, 1 :: int]]) (store_of [[2, 10]]) :: (int, unit) world))) 0 =
     [4, 14] \<and>
   eigen (snd (ScaleAndAddToVector 0 (Coefficient 0 0) (Some 0)
     (fresh_world (store_of [[1, 1 :: int]]) (store_of [[2, 10]]) :: (int, unit) world))) 0 ! 1 \<noteq>
     10 + 2 * 1"
  by (simp add: ScaleAndAddToVector_def ScaleAndAddToVector_loop.simps DRAKE_THROW_UNLESS_def
      GetAtIndex_def eigen_read_def eigen_write_def coeff_read_def coeff_write_def
      bindM_def returnM_def throwM_def fresh_world_def store_of_def size_vb_def rows_def)

text \<open>
  Claim C8, amended. \<open>ScaleAndAddToVector(scale, vec)\<close> fails on a null output with the
  error of the check \<open>vec != nullptr\<close> and on an output whose row count is not \<open>size()\<close>
  with \<open>std::out_of_range\<close>; in both failures the store is as it was before the call,
  whatever \<open>scale\<close> refers to. When the row count is \<open>size()\<close> and \<open>scale\<close> does not refer
  to a coefficient of the output itself, the call returns without an error, the output
  keeps its row count, coefficient \<open>i\<close> of the output is its old value plus \<open>s\<close> times
  element \<open>i\<close> of the vector, for every index \<open>i\<close>, where \<open>s\<close> is the scalar that \<open>scale\<close>
  refers to when the call is made, and no vector and no other dense vector has
  changed. The scalar type is any type with an addition and a multiplication.
\<close>

theorem ScaleAndAddToVector_outcomes:
  fixes w :: "('a::{plus,times}, 'd) world"
  shows "ScaleAndAddToVector this scale None w = (Inl (assertion_error ''vec != nullptr''), w) \<and>
   (rows p w \<noteq> size_vb this w \<longrightarrow>
      ScaleAndAddToVector this scale (Some p) w =
        (Inl (out_of_range ''Addends must be the same size.''), w)) \<and>
   (rows p w = size_vb this w \<and> read_ref scale w = (Inr s, w) \<and>
    (\<forall>k. scale \<noteq> Coefficient p k) \<longrightarrow>
      (\<exists>w'. ScaleAndAddToVector this scale (Some p) w = (Inr (), w') \<and>
         rows p w' = rows p w \<and>
         (\<forall>i < size_vb this w. eigen w' p ! i = eigen w p ! i + s * vectors w this ! i) \<and>
         (\<forall>q. q \<noteq> p \<longrightarrow> eigen w' q = eigen w q) \<and>
         vectors w' = vectors w))"
proof (intro conjI impI)
  show "ScaleAndAddToVector this scale None w = (Inl (assertion_error ''vec != nullptr''), w)"
    by (rule ScaleAndAddToVector_null)
next
  assume "rows p w \<noteq> size_vb this w"
  then show "ScaleAndAddToVector this scale (Some p) w =
      (Inl (out_of_range ''Addends must be the same size.''), w)"
    by (rule ScaleAndAddToVector_mismatch)
next
  assume a: "rows p w = size_vb this w \<and> read_ref scale w = (Inr s, w) \<and>
    (\<forall>k. scale \<noteq> Coefficient p k)"
  then have "ScaleAndAddToVector this scale (Some p) w =
     (Inr (),
      w\<lparr>eigen := (eigen w)(p :=
            map (\<lambda>j. eigen w p ! j + s * vectors w this ! j) [0..<size_vb this w]),
        accesses := accesses w @ map (Read this) [0..<size_vb this w]\<rparr>)"
    by (intro ScaleAndAddToVector_run) simp_all
  with a show "\<exists>w'. ScaleAndAddToVector this scale (Some p) w = (Inr (), w') \<and>
         rows p w' = rows p w \<and>
         (\<forall>i < size_vb this w. eigen w' p ! i = eigen w p ! i + s * vectors w this ! i) \<and>
         (\<forall>q. q \<noteq> p \<longrightarrow> eigen w' q = eigen w q) \<and>
         vectors w' = vectors w"
    by (simp add: rows_def size_vb_def)
qed

text \<open>
  Vector 0 is \<open>[1, 2, 3]\<close> and the dense vector 0 is \<open>[5, 6, 7]\<close>: with a scale of 2 it
  becomes \<open>[7, 10, 13]\<close>, both when the scale is a scalar of its own and when it refers
  to element 1 of vector 0. The dense vector 1 has one coefficient.
\<close>

theorem ScaleAndAddToVector_outcomes_witness:
  "ScaleAndAddToVector 0 (Temporary 2) None example_world =
     (Inl (assertion_error ''vec != nullptr''), example_world) \<and>
   rows 1 example_world \<noteq> size_vb 0 example_world \<and>
   ScaleAndAddToVector 0 (Temporary 2) (Some 1) example_world =
     (Inl (out_of_range ''Addends must be the same size.''), example_world) \<and>
   rows 0 example_world = size_vb 0 example_world \<and>
   fst (ScaleAndAddToVector 0 (Temporary 2) (Some 0) example_world) = Inr () \<and>
   eigen (snd (ScaleAndAddToVector 0 (Temporary 2) (Some 0) example_world)) 0 = [7, 10, 13] \<and>
   read_ref (Element 0 1) example_world = (Inr 2, example_world) \<and>
   eigen (snd (ScaleAndAddToVector 0 (Element 0 1) (Some 0) example_world)) 0 = [7, 10, 13]"
proof -
  have ne: "rows 1 example_world \<noteq> size_vb 0 example_world"
    and eq: "rows 0 example_world = size_vb 0 example_world"
    by (simp_all add: example_defs)
  have t: "read_ref (Temporary 2) example_world = (Inr 2, example_world)"
    by (simp add: returnM_def)
  have e: "read_ref (Element 0 1) example_world = (Inr 2, example_world)"
    by (simp add: coeff_read_def returnM_def example_defs)
  note fail = ScaleAndAddToVector_outcomes [of 0 "Temporary 2" example_world 1]
  have res: "eigen w' 0 = [7, 10, 13]"
    if len: "rows 0 w' = rows 0 example_world"
      and el: "\<forall>i < size_vb 0 example_world.
        eigen w' 0 ! i = eigen example_world 0 ! i + 2 * vectors example_world 0 ! i"
    for w' :: "(int, unit) world"
  proof -
    have len3: "length (eigen w' 0) = 3"
      using len by (simp add: example_defs)
    have el3: "eigen w' 0 ! 0 = 7" "eigen w' 0 ! 1 = 10" "eigen w' 0 ! 2 = 13"
      using el by (simp_all add: example_defs)
    show ?thesis
      by (rule nth_equalityI)
        (use len3 el3 in \<open>auto simp: less_Suc_eq numeral_3_eq_3 numeral_2_eq_2\<close>)
  qed
  from ScaleAndAddToVector_outcomes [of 0 "Temporary 2" example_world 0 2] eq t
  obtain w1 where r1: "ScaleAndAddToVector 0 (Temporary 2) (Some 0) example_world = (Inr (), w1)"
    and len1: "rows 0 w1 = rows 0 example_world"
    and el1: "\<forall>i < size_vb 0 example_world.
       eigen w1 0 ! i = eigen example_world 0 ! i + 2 * vectors example_world 0 ! i"
    by auto
  from ScaleAndAddToVector_outcomes [of 0 "Element 0 1" example_world 0 2] eq e
  obtain w2 where r2: "ScaleAndAddToVector 0 (Element 0 1) (Some 0) example_world = (Inr (), w2)"
    and len2: "rows 0 w2 = rows 0 example_world"
    and el2: "\<forall>i < size_vb 0 example_world.
       eigen w2 0 ! i = eigen example_world 0 ! i + 2 * vectors example_world 0 ! i"
    by auto
  from fail ne eq e res [OF len1 el1] res [OF len2 el2] show ?thesis
    unfolding r1 r2 by simp
qed

subsection \<open>Streaming\<close>

lemma comma_separated_spec_Cons:
  "comma_separated_spec (x # ys) =
     x @ (if ys = [] then [] else '', '' @ comma_separated_spec ys)"
  by (cases ys) simp_all

lemma operator_shl_loop_done:
  "\<not> i < size_vb vec w \<Longrightarrow> operator_shl_loop put vec i os w = (Inr os, w)"
  by (subst operator_shl_loop.simps) (simp add: returnM_def)

text \<open>
  The loop from index \<open>i\<close> on writes the elements from \<open>i\<close> on, with the separator in
  front of them when \<open>i\<close> is not the first index.
\<close>

lemma operator_shl_loop_run:
  assumes "i \<le> length (vectors w vec)"
  shows "operator_shl_loop put vec i os w =
     (Inr (os @ (if i < length (vectors w vec)
                 then (if i > 0 then '', '' else []) @
                      comma_separated_spec (map put (drop i (vectors w vec)))
                 else [])),
      w\<lparr>accesses := accesses w @ map (Read vec) [i..<length (vectors w vec)]\<rparr>)"
  using assms
proof (induction "length (vectors w vec) - i" arbitrary: i os w)
  case 0
  then show ?case
    by (simp add: operator_shl_loop_done size_vb_def)
next
  case (Suc n)
  let ?xs = "vectors w vec"
  let ?os1 = "if i > 0 then os @ '', '' else os"
  let ?w1 = "w\<lparr>accesses := accesses w @ [Read vec i]\<rparr>"
  from Suc have lt: "i < length ?xs" by simp
  have get: "GetAtIndex vec i w = (Inr (?xs ! i), ?w1)"
    using lt by (simp add: GetAtIndex_ok)
  have step: "operator_shl_loop put vec i os w =
      operator_shl_loop put vec (i + 1) (?os1 @ put (?xs ! i)) ?w1"
    using lt by (subst operator_shl_loop.simps) (simp add: bindM_def returnM_def get size_vb_def)
  have IH: "operator_shl_loop put vec (i + 1) (?os1 @ put (?xs ! i)) ?w1 =
     (Inr ((?os1 @ put (?xs ! i)) @
           (if i + 1 < length (vectors ?w1 vec)
            then (if i + 1 > 0 then '', '' else []) @
                 comma_separated_spec (map put (drop (i + 1) (vectors ?w1 vec)))
            else [])),
      ?w1\<lparr>accesses := accesses ?w1 @ map (Read vec) [i + 1..<length (vectors ?w1 vec)]\<rparr>)"
    using Suc.hyps(1) [of ?w1 "i + 1" "?os1 @ put (?xs ! i)"] Suc.hyps(2) lt by simp
  have tail: "drop i ?xs = ?xs ! i # drop (i + 1) ?xs"
    using lt by (simp add: Cons_nth_drop_Suc)
  have upt: "[i..<length ?xs] = i # [i + 1..<length ?xs]"
    using lt by (simp add: upt_conv_Cons)
  have same: "vectors ?w1 vec = ?xs"
    by simp
  have listing: "comma_separated_spec (map put (drop i ?xs)) =
      put (?xs ! i) @
      (if i + 1 < length ?xs
       then '', '' @ comma_separated_spec (map put (drop (i + 1) ?xs)) else [])"
    by (subst tail) (simp add: comma_separated_spec_Cons)
  show ?case
    unfolding step IH same upt listing
    using lt by simp
qed

lemma operator_shl_run:
  "operator_shl put os vec w =
     (Inr (os @ bracketed_listing_spec put (vectors w vec)),
      w\<lparr>accesses := accesses w @ map (Read vec) [0..<size_vb vec w]\<rparr>)"
proof -
  have "comma_separated_spec (map put (vectors w vec)) = []" if "\<not> 0 < length (vectors w vec)"
    using that by simp
  then show ?thesis
    using operator_shl_loop_run [of 0 w vec put "os @ ''[''"]
    by (simp add: operator_shl_def bindM_def returnM_def bracketed_listing_spec_def size_vb_def)
qed

text \<open>
  Claim C9. Streaming a vector always returns; it appends to the stream an opening
  bracket, the elements in index order separated by a comma and a space, and a
  closing bracket, so the empty vector is written as \<open>[]\<close>. It reads every element
  exactly once through \<open>GetAtIndex\<close>, in index order, and writes none: the store after
  the call differs from the store before it in the record of accesses only. How one
  scalar is written is the scalar type's own inserter, a parameter here.
\<close>

theorem operator_shl_listing:
  "operator_shl put os vec w =
     (Inr (os @ bracketed_listing_spec put (vectors w vec)),
      w\<lparr>accesses := accesses w @ map (Read vec) [0..<size_vb vec w]\<rparr>)"
  by (rule operator_shl_run)

text \<open>Vector 0 is \<open>[1, 2, 3]\<close>, vector 9 is empty.\<close>

theorem operator_shl_listing_witness:
  "operator_shl put_example ''v = '' 0 example_world =
     (Inr ''v = [1, 2, 3]'', example_world\<lparr>accesses := [Read 0 0, Read 0 1, Read 0 2]\<rparr>) \<and>
   operator_shl put_example [] 9 example_world = (Inr ''[]'', example_world)"
proof -
  have u: "[0..<3] = [0, 1, 2]" by (simp add: upt_rec)
  have a: "accesses example_world = []" by (simp add: example_defs)
  have v0: "vectors example_world 0 = [1, 2, 3]" and v9: "vectors example_world 9 = []"
    by (simp_all add: example_defs)
  have w: "example_world\<lparr>accesses := []\<rparr> = example_world"
    by (simp add: example_defs)
  show ?thesis
    unfolding operator_shl_listing
    by (simp add: size_vb_def v0 v9 a u w bracketed_listing_spec_def put_example_def)
qed

subsection \<open>GetElementBounds\<close>

text \<open>
  Claim C10. The default \<open>GetElementBounds\<close> has no check of its output pointers: with a
  null \<open>lower\<close> or a null \<open>upper\<close> the call does not throw the error of a null check (or
  any other exception) but dereferences the null pointer, which is undefined; the
  sibling \<open>CopyToPreSizedVector\<close> and \<open>ScaleAndAddToVector\<close> do throw on a null output.
  With two valid pointers it returns without an error and both outputs have length
  zero afterwards, whatever the vectors of the store hold; nothing else of the store
  changes.
\<close>

theorem GetElementBounds_unguarded:
  "(lower = None \<or> upper = None \<longrightarrow>
      fst (GetElementBounds this lower upper w) = Inl undefined_behavior \<and>
      (\<forall>text. fst (GetElementBounds this lower upper w) \<noteq> Inl (assertion_error text))) \<and>
   fst (CopyToPreSizedVector this None w) = Inl (assertion_error ''vec != nullptr'') \<and>
   fst (ScaleAndAddToVector this scale None w) = Inl (assertion_error ''vec != nullptr'') \<and>
   GetElementBounds this (Some l) (Some u) w =
     (Inr (), w\<lparr>eigen_d := (eigen_d w)(l := [], u := [])\<rparr>) \<and>
   GetElementBounds this (Some l) (Some u) (w\<lparr>vectors := vs\<rparr>) =
     (Inr (), w\<lparr>vectors := vs, eigen_d := (eigen_d w)(l := [], u := [])\<rparr>)"
  by (cases lower; cases upper)
    (simp_all add: GetElementBounds_def deref_def resize_0_def bindM_def returnM_def throwM_def
      CopyToPreSizedVector_null ScaleAndAddToVector_null)

text \<open>
  On a store whose bounds vectors 4 and 5 hold two coefficients each: a null \<open>lower\<close>,
  a null \<open>upper\<close>, and two valid pointers.
\<close>

theorem GetElementBounds_unguarded_witness:
  "fst (GetElementBounds 0 None (Some 5) (example_world\<lparr>eigen_d := (\<lambda>_. [(), ()])\<rparr>)) =
     Inl undefined_behavior \<and>
   fst (GetElementBounds 0 (Some 4) None (example_world\<lparr>eigen_d := (\<lambda>_. [(), ()])\<rparr>)) =
     Inl undefined_behavior \<and>
   fst (GetElementBounds 0 (Some 4) (Some 5) (example_world\<lparr>eigen_d := (\<lambda>_. [(), ()])\<rparr>)) =
     Inr () \<and>
   eigen_d (snd (GetElementBounds 0 (Some 4) (Some 5)
     (example_world\<lparr>eigen_d := (\<lambda>_. [(), ()])\<rparr>))) 4 = [] \<and>
   eigen_d (snd (GetElementBounds 0 (Some 4) (Some 5)
     (example_world\<lparr>eigen_d := (\<lambda>_. [(), ()])\<rparr>))) 5 = [] \<and>
   eigen_d (snd (GetElementBounds 0 (Some 4) (Some 5)
     (example_world\<lparr>eigen_d := (\<lambda>_. [(), ()])\<rparr>))) 6 = [(), ()]"
proof -
  let ?w = "example_world\<lparr>eigen_d := (\<lambda>_. [(), ()])\<rparr>"
  from GetElementBounds_unguarded [of None "Some 5" 0 ?w "Temporary 0" 4 5 "vectors ?w"]
    GetElementBounds_unguarded [of "Some 4" None 0 ?w "Temporary 0" 4 5 "vectors ?w"]
  show ?thesis
    by simp
qed

end
